theory Spec2Isabelle
  imports Complex_Main
begin

section \<open>Data model\<close>

text \<open>
  The dashboard keeps its data in a pandas DataFrame read from \<^verbatim>\<open>WHR2023.csv\<close>.
  A numeric entry of the frame is a float; pandas writes a missing entry as NaN. Sums,
  means and roots are taken over the reals: the rounding of the machine floats is left
  out, the order comparisons and the treatment of NaN are kept.
\<close>

datatype cell = NaN | Num real

text \<open>
  One row of the frame, with the columns the program reads by name:
  \<^verbatim>\<open>'Country name'\<close>, \<^verbatim>\<open>'Ladder score'\<close>, \<^verbatim>\<open>'Logged GDP per capita'\<close>,
  \<^verbatim>\<open>'Social support'\<close>, \<^verbatim>\<open>'Healthy life expectancy'\<close>,
  \<^verbatim>\<open>'Freedom to make life choices'\<close>, \<^verbatim>\<open>'Generosity'\<close> and
  \<^verbatim>\<open>'Perceptions of corruption'\<close>. An entry of the name column is a string or is
  missing (\<open>None\<close>). A frame is the list of its rows, in order.
\<close>

record country =
  country_name :: "string option"
  ladder_score :: cell
  logged_gdp :: cell
  social_support :: cell
  healthy_life :: cell
  freedom_choices :: cell
  generosity :: cell
  corruption :: cell

type_synonym table = "country list"

text \<open>The exceptions the modelled calls can raise.\<close>

datatype error = KeyError | ValueError | TypeError | AttributeError | ReError

section \<open>Cluster names\<close>

text \<open>
  \<^verbatim>\<open>str(n)\<close> for a Python integer: the decimal digits, most significant first, after a
  minus sign for a negative number.
\<close>

definition digit_char :: "nat \<Rightarrow> char" where
  "digit_char d = ''0123456789'' ! d"

fun digits :: "nat \<Rightarrow> string" where
  "digits n = (if n < 10 then [digit_char n] else digits (n div 10) @ [digit_char (n mod 10)])"

declare digits.simps [simp del]

definition str_int :: "int \<Rightarrow> string" where
  "str_int i = (if i < 0 then CHR ''-'' # digits (nat (- i)) else digits (nat i))"

text \<open>The dictionary \<^verbatim>\<open>names\<close> of \<^verbatim>\<open>get_cluster_names\<close>.\<close>

definition names :: "int \<rightharpoonup> string" where
  "names = [0 \<mapsto> ''Very Happy'', 1 \<mapsto> ''Happy'', 2 \<mapsto> ''Moderate'', 3 \<mapsto> ''Struggling'']"

text \<open>\<^verbatim>\<open>names.get(cluster_id, f"Cluster {cluster_id}")\<close>\<close>

definition get_cluster_names :: "int \<Rightarrow> string" where
  "get_cluster_names cluster_id =
     (case names cluster_id of
        Some v \<Rightarrow> v
      | None \<Rightarrow> ''Cluster '' @ str_int cluster_id)"

text \<open>Reading a decimal numeral back, to say what \<open>digits\<close> writes.\<close>

definition digit_val :: "char \<Rightarrow> nat" where
  "digit_val c = of_char c - 48"

definition decimal_val :: "string \<Rightarrow> nat" where
  "decimal_val s = foldl (\<lambda>acc c. 10 * acc + digit_val c) 0 s"

section \<open>The filtered view\<close>

text \<open>
  The comparisons \<^verbatim>\<open>df[col] >= v\<close> and \<^verbatim>\<open>df[col] <= v\<close> on one entry: a NaN entry
  compares false both ways.
\<close>

definition ge_cell :: "cell \<Rightarrow> real \<Rightarrow> bool" where
  "ge_cell c v = (case c of NaN \<Rightarrow> False | Num x \<Rightarrow> v \<le> x)"

definition le_cell :: "cell \<Rightarrow> real \<Rightarrow> bool" where
  "le_cell c v = (case c of NaN \<Rightarrow> False | Num x \<Rightarrow> x \<le> v)"

text \<open>
  \<^verbatim>\<open>filtered_data\<close>: the two range sliders each give a pair (low, high); the frame is
  cut down by the happiness range first and by the GDP range second.
\<close>

definition filtered_data :: "table \<Rightarrow> real \<times> real \<Rightarrow> real \<times> real \<Rightarrow> table" where
  "filtered_data data happiness_range gdp_range =
     (let df = data;
          df = filter (\<lambda>r. ge_cell (ladder_score r) (fst happiness_range) \<and>
                            le_cell (ladder_score r) (snd happiness_range)) df;
          df = filter (\<lambda>r. ge_cell (logged_gdp r) (fst gdp_range) \<and>
                            le_cell (logged_gdp r) (snd gdp_range)) df
      in df)"

text \<open>A value lies in the closed interval from \<open>lo\<close> to \<open>hi\<close>; a missing value lies in none.\<close>

definition in_closed_range :: "real \<Rightarrow> real \<Rightarrow> cell \<Rightarrow> bool" where
  "in_closed_range lo hi c = (\<exists>x. c = Num x \<and> lo \<le> x \<and> x \<le> hi)"

section \<open>Column statistics\<close>

text \<open>
  The pandas reductions the program calls on a column. Each of them skips the missing
  entries and returns NaN when it has too few values left; none of them raises.
\<close>

fun present :: "cell list \<Rightarrow> real list" where
  "present [] = []"
| "present (NaN # cs) = present cs"
| "present (Num x # cs) = x # present cs"

text \<open>\<^verbatim>\<open>Series.mean()\<close>\<close>

definition series_mean :: "cell list \<Rightarrow> cell" where
  "series_mean cs =
     (let xs = present cs
      in if xs = [] then NaN else Num (sum_list xs / real (length xs)))"

text \<open>\<^verbatim>\<open>Series.median()\<close>: the middle value, or the mean of the two middle values.\<close>

definition series_median :: "cell list \<Rightarrow> cell" where
  "series_median cs =
     (let xs = sort (present cs); n = length xs
      in if n = 0 then NaN
         else if odd n then Num (xs ! (n div 2))
         else Num ((xs ! (n div 2 - 1) + xs ! (n div 2)) / 2))"

text \<open>\<^verbatim>\<open>Series.std()\<close>: the sample standard deviation (divisor \<open>n - 1\<close>).\<close>

definition series_std :: "cell list \<Rightarrow> cell" where
  "series_std cs =
     (let xs = present cs; n = length xs
      in if n < 2 then NaN
         else (let m = sum_list xs / real n
               in Num (sqrt (sum_list (map (\<lambda>x. (x - m)\<^sup>2) xs) / real (n - 1)))))"

text \<open>\<^verbatim>\<open>Series.min()\<close> and \<^verbatim>\<open>Series.max()\<close>\<close>

definition series_min :: "cell list \<Rightarrow> cell" where
  "series_min cs = (case present cs of [] \<Rightarrow> NaN | x # xs \<Rightarrow> Num (fold min xs x))"

definition series_max :: "cell list \<Rightarrow> cell" where
  "series_max cs = (case present cs of [] \<Rightarrow> NaN | x # xs \<Rightarrow> Num (fold max xs x))"

text \<open>
  \<^verbatim>\<open>Series.quantile(q)\<close> for \<open>0 \<le> q \<le> 1\<close>, with the default linear interpolation
  between the two order statistics around position \<open>q * (n - 1)\<close>.
\<close>

definition series_quantile :: "cell list \<Rightarrow> real \<Rightarrow> cell" where
  "series_quantile cs q =
     (let xs = sort (present cs); n = length xs
      in if n = 0 then NaN
         else (let pos = q * real (n - 1);
                   lo = nat \<lfloor>pos\<rfloor>;
                   hi = min (lo + 1) (n - 1);
                   frac = pos - real lo
               in Num (xs ! lo + (xs ! hi - xs ! lo) * frac)))"

text \<open>The dictionary \<^verbatim>\<open>get_summary_stats\<close> returns (\<open>min\<close> and \<open>max\<close> renamed).\<close>

record summary =
  count :: nat
  mean :: cell
  median :: cell
  std :: cell
  minimum :: cell
  maximum :: cell
  q25 :: cell
  q75 :: cell

definition get_summary_stats :: "table \<Rightarrow> summary" where
  "get_summary_stats df =
     (let ladder = map ladder_score df
      in \<lparr>count = length df,
          mean = series_mean ladder,
          median = series_median ladder,
          std = series_std ladder,
          minimum = series_min ladder,
          maximum = series_max ladder,
          q25 = series_quantile ladder 0.25,
          q75 = series_quantile ladder 0.75\<rparr>)"

section \<open>Loading the data\<close>

text \<open>\<^verbatim>\<open>fillna\<close> on one entry: a missing entry takes the fill value, a present one stays.\<close>

definition fillna :: "cell \<Rightarrow> cell \<Rightarrow> cell" where
  "fillna c m = (case c of NaN \<Rightarrow> m | Num x \<Rightarrow> Num x)"

text \<open>
  \<^verbatim>\<open>load_data\<close>, from the parsed file on: every numeric column is filled with its own
  mean, \<^verbatim>\<open>df[numeric_cols].fillna(df[numeric_cols].mean())\<close>. Reading the file and
  stripping the column names are not modelled; the argument is the frame as
  \<^verbatim>\<open>read_csv\<close> returned it.
\<close>

definition load_data :: "table \<Rightarrow> table" where
  "load_data df =
     map (\<lambda>r. \<lparr>country_name = country_name r,
               ladder_score = fillna (ladder_score r) (series_mean (map ladder_score df)),
               logged_gdp = fillna (logged_gdp r) (series_mean (map logged_gdp df)),
               social_support = fillna (social_support r) (series_mean (map social_support df)),
               healthy_life = fillna (healthy_life r) (series_mean (map healthy_life df)),
               freedom_choices = fillna (freedom_choices r) (series_mean (map freedom_choices df)),
               generosity = fillna (generosity r) (series_mean (map generosity df)),
               corruption = fillna (corruption r) (series_mean (map corruption df))\<rparr>) df"

text \<open>The numeric columns, as the selectors of a row.\<close>

definition numeric_cols :: "(country \<Rightarrow> cell) list" where
  "numeric_cols = [ladder_score, logged_gdp, social_support, healthy_life,
                   freedom_choices, generosity, corruption]"

section \<open>The searched view\<close>

text \<open>
  \<^verbatim>\<open>str.lower()\<close>. A string is modelled as the list of its characters, each a code
  point from 0 to 255 (Latin-1 text; strings with higher code points are outside the
  model). On these \<^verbatim>\<open>str.lower()\<close> works character by character: the letters A to Z
  (65 to 90) and the accented capitals (192 to 222, but for the multiplication sign
  215) go to the code point 32 above, every other character stays.
\<close>

definition lower_char :: "char \<Rightarrow> char" where
  "lower_char c =
     (let n = of_char c :: nat
      in if (65 \<le> n \<and> n \<le> 90) \<or> (192 \<le> n \<and> n \<le> 222 \<and> n \<noteq> 215)
         then char_of (n + 32) else c)"

definition lower :: "string \<Rightarrow> string" where
  "lower s = map lower_char s"

text \<open>
  \<^verbatim>\<open>Series.str.contains(pat, na=False)\<close> is called without \<^verbatim>\<open>regex=False\<close>, so pandas
  reads \<^verbatim>\<open>pat\<close> as a regular expression: it compiles the pattern once
  (\<^verbatim>\<open>re.compile\<close>, which raises \<^verbatim>\<open>re.error\<close> on a pattern it refuses) and keeps the
  entries in which \<^verbatim>\<open>pattern.search\<close> finds a match.

  The characters with a meaning of their own in a pattern:
\<close>

definition metachars :: string where
  "metachars = ''.^$*+?{}[]|()'' @ [CHR 0x5C]"

text \<open>
  Patterns made of ordinary characters, dots and parentheses are interpreted here. An
  ordinary character matches itself, a dot matches every character but the newline.
  \<open>match_here p s\<close>: the pattern \<open>p\<close> of ordinary characters and dots matches at the
  start of \<open>s\<close>; \<open>re_search p s\<close>: it matches somewhere in \<open>s\<close>.
\<close>

fun match_here :: "string \<Rightarrow> string \<Rightarrow> bool" where
  "match_here [] s = True"
| "match_here (p # ps) [] = False"
| "match_here (p # ps) (c # cs) =
     ((if p = CHR ''.'' then c \<noteq> CHR 0x0A else p = c) \<and> match_here ps cs)"

fun re_search :: "string \<Rightarrow> string \<Rightarrow> bool" where
  "re_search p [] = match_here p []"
| "re_search p (c # cs) = (match_here p (c # cs) \<or> re_search p cs)"

text \<open>
  Parentheses form a group. Around a sequence of characters and dots a group changes
  nothing of what the pattern matches, and a pattern whose parentheses do not pair up
  is refused. \<open>balanced pat d\<close>: the parentheses of \<open>pat\<close> pair up when \<open>d\<close> groups are
  open at its start.
\<close>

fun balanced :: "string \<Rightarrow> nat \<Rightarrow> bool" where
  "balanced [] d = (d = 0)"
| "balanced (c # cs) d =
     (if c = CHR ''('' then balanced cs (Suc d)
      else if c = CHR '')'' then 0 < d \<and> balanced cs (d - 1)
      else balanced cs d)"

definition strip_groups :: "string \<Rightarrow> string" where
  "strip_groups pat = filter (\<lambda>c. c \<noteq> CHR ''('' \<and> c \<noteq> CHR '')'') pat"

definition interpreted :: "string \<Rightarrow> bool" where
  "interpreted pat =
     list_all (\<lambda>c. c = CHR ''.'' \<or> c = CHR ''('' \<or> c = CHR '')'' \<or> c \<notin> set metachars) pat"

text \<open>
  Every other pattern is left to the parameter \<open>engine\<close>, which stands for Python's
  \<^verbatim>\<open>re.compile\<close> there: \<open>None\<close> when the pattern is refused, otherwise the search
  of the compiled pattern.
\<close>

type_synonym regex_engine = "string \<Rightarrow> (string \<Rightarrow> bool) option"

definition re_compile :: "regex_engine \<Rightarrow> string \<Rightarrow> (string \<Rightarrow> bool) option" where
  "re_compile engine pat =
     (if interpreted pat
      then (if balanced pat 0 then Some (re_search (strip_groups pat)) else None)
      else engine pat)"

text \<open>The boolean column of \<^verbatim>\<open>str.contains\<close>: a missing entry gives \<open>na\<close>.\<close>

definition str_contains ::
  "regex_engine \<Rightarrow> string option list \<Rightarrow> string \<Rightarrow> bool \<Rightarrow> error + bool list" where
  "str_contains engine col pat na =
     (case re_compile engine pat of
        None \<Rightarrow> Inl ReError
      | Some m \<Rightarrow> Inr (map (\<lambda>x. case x of None \<Rightarrow> na | Some s \<Rightarrow> m s) col))"

text \<open>
  The accessor \<^verbatim>\<open>.str\<close> of a column. \<^verbatim>\<open>read_csv\<close> types a column that has rows and
  not one present entry as a float column, and on such a column the accessor raises
  AttributeError; a column with no rows, or with a string in it, is a text column.
\<close>

definition is_text_column :: "string option list \<Rightarrow> bool" where
  "is_text_column col = (col = [] \<or> list_ex (\<lambda>x. x \<noteq> None) col)"

definition str_accessor :: "string option list \<Rightarrow> error + string option list" where
  "str_accessor col = (if is_text_column col then Inr col else Inl AttributeError)"

text \<open>
  \<^verbatim>\<open>searched_data\<close>: an empty search string is falsy and skips the filter;
  otherwise the accessor is taken first, the names are lower-cased, and the pattern is
  compiled and searched; \<^verbatim>\<open>df[hits]\<close> keeps the rows whose entry of the boolean
  column is true; \<^verbatim>\<open>head(20)\<close> keeps the first 20 rows.
\<close>

definition searched_data :: "regex_engine \<Rightarrow> table \<Rightarrow> string \<Rightarrow> error + table" where
  "searched_data engine data country_search =
     (let df = data
      in if country_search \<noteq> [] then
           (let search_term = lower country_search
            in case str_accessor (map country_name df) of
                 Inl e \<Rightarrow> Inl e
               | Inr names_col \<Rightarrow>
                   (case str_contains engine (map (map_option lower) names_col)
                           search_term False of
                      Inl e \<Rightarrow> Inl e
                    | Inr hits \<Rightarrow> Inr (take 20 (map fst (filter snd (zip df hits))))))
         else Inr (take 20 df))"

text \<open>The test a compiled search \<open>m\<close> makes on a row: a missing name is no match.\<close>

definition name_matches :: "(string \<Rightarrow> bool) \<Rightarrow> country \<Rightarrow> bool" where
  "name_matches m r = (case country_name r of None \<Rightarrow> False | Some s \<Rightarrow> m (lower s))"

text \<open>\<open>sub\<close> occurs in \<open>s\<close> as a substring.\<close>

definition contains_substring :: "string \<Rightarrow> string \<Rightarrow> bool" where
  "contains_substring s sub = (\<exists>u v. s = u @ sub @ v)"

section \<open>Clustering\<close>

text \<open>
  \<^verbatim>\<open>df[name]\<close> for the numeric columns. A name that is no column raises KeyError; the
  name column holds strings, and taking its mean raises.
\<close>

definition column :: "string \<Rightarrow> error + (country \<Rightarrow> cell)" where
  "column c =
     (if c = ''Ladder score'' then Inr ladder_score
      else if c = ''Logged GDP per capita'' then Inr logged_gdp
      else if c = ''Social support'' then Inr social_support
      else if c = ''Healthy life expectancy'' then Inr healthy_life
      else if c = ''Freedom to make life choices'' then Inr freedom_choices
      else if c = ''Generosity'' then Inr generosity
      else if c = ''Perceptions of corruption'' then Inr corruption
      else if c = ''Country name'' then Inl TypeError
      else Inl KeyError)"

text \<open>
  The numeric columns named by \<open>features\<close>, in the order of \<open>features\<close>. A matrix is
  the list of its columns.
\<close>

fun numeric_columns :: "table \<Rightarrow> string list \<Rightarrow> error + cell list list" where
  "numeric_columns df [] = Inr []"
| "numeric_columns df (f # fs) =
     (case column f of
        Inl e \<Rightarrow> Inl e
      | Inr sel \<Rightarrow>
          (case numeric_columns df fs of
             Inl e \<Rightarrow> Inl e
           | Inr cols \<Rightarrow> Inr (map sel df # cols)))"

text \<open>
  \<^verbatim>\<open>df[features]\<close> with the mean taken over it: the selection raises KeyError when any
  of the names is no column, wherever it stands in the list; only then is the mean
  taken, which raises on the name column.
\<close>

definition select_columns :: "table \<Rightarrow> string list \<Rightarrow> error + cell list list" where
  "select_columns df features =
     (if list_all (\<lambda>f. column f \<noteq> Inl KeyError) features
      then numeric_columns df features
      else Inl KeyError)"

text \<open>
  \<^verbatim>\<open>StandardScaler().fit_transform(X)\<close>: it refuses a matrix with no row or no column;
  each column is shifted by its mean and divided by its population standard deviation,
  a column of zero variance by 1. The fitted scaler keeps the means and the divisors.
\<close>

record scaler =
  mean_ :: "cell list"
  scale_ :: "cell list"

definition series_var0 :: "cell list \<Rightarrow> cell" where
  "series_var0 cs =
     (let xs = present cs; n = length xs
      in if n = 0 then NaN
         else (let m = sum_list xs / real n
               in Num (sum_list (map (\<lambda>x. (x - m)\<^sup>2) xs) / real n)))"

definition scale_of :: "cell \<Rightarrow> cell" where
  "scale_of v = (case v of NaN \<Rightarrow> NaN | Num x \<Rightarrow> if x = 0 then Num 1 else Num (sqrt x))"

definition standardize :: "cell \<Rightarrow> cell \<Rightarrow> cell \<Rightarrow> cell" where
  "standardize m s v =
     (case (v, m, s) of
        (Num x, Num a, Num b) \<Rightarrow> Num ((x - a) / b)
      | _ \<Rightarrow> NaN)"

definition fit_transform :: "nat \<Rightarrow> cell list list \<Rightarrow> error + scaler \<times> cell list list" where
  "fit_transform n_samples X =
     (if n_samples = 0 \<or> X = [] then Inl ValueError
      else (let sc = \<lparr>mean_ = map series_mean X, scale_ = map (scale_of \<circ> series_var0) X\<rparr>
            in Inr (sc, map (\<lambda>c. map (standardize (series_mean c) (scale_of (series_var0 c))) c) X)))"

text \<open>
  Modelled from the spec: \<^verbatim>\<open>KMeans(n_clusters, random_state, n_init).fit_predict(X)\<close>
  of scikit-learn, which is not part of the repository: "a deterministic-seeded
  iterative relocation algorithm (fixed random seed, multiple restarts, lowest-inertia
  result kept)". The library is a parameter: \<open>relocate\<close> is the relocation algorithm,
  which from a state of a random generator, the number of restarts, the number of
  clusters and the matrix gives the labels (or raises) and the state it leaves the
  generator in; \<open>RandomState\<close> makes a fresh generator from a seed. Without a seed
  (\<^verbatim>\<open>random_state=None\<close>) the algorithm draws from the global generator of the process,
  whose state \<open>g\<close> is threaded through; with a seed it draws from a fresh generator and
  leaves the global one alone.
\<close>

record 'g kmeans_lib =
  RandomState :: "nat \<Rightarrow> 'g"
  relocate :: "'g \<Rightarrow> nat \<Rightarrow> nat \<Rightarrow> cell list list \<Rightarrow> (error + nat list) \<times> 'g"

definition KMeans_fit_predict ::
  "'g kmeans_lib \<Rightarrow> nat \<Rightarrow> nat option \<Rightarrow> nat \<Rightarrow> cell list list \<Rightarrow> 'g \<Rightarrow>
     (error + nat list) \<times> 'g" where
  "KMeans_fit_predict lib n_clusters random_state n_init X g =
     (case random_state of
        None \<Rightarrow> relocate lib g n_init n_clusters X
      | Some seed \<Rightarrow> (fst (relocate lib (RandomState lib seed) n_init n_clusters X), g))"

text \<open>
  \<^verbatim>\<open>perform_clustering(df, n_clusters, features)\<close>, with the state of the global random
  generator passed in and out. The default of \<^verbatim>\<open>n_clusters\<close> (4) is the caller's to
  supply; \<^verbatim>\<open>features=None\<close> selects the five default columns.
\<close>

definition default_features :: "string list" where
  "default_features = [''Ladder score'', ''Logged GDP per capita'', ''Social support'',
     ''Healthy life expectancy'', ''Freedom to make life choices'']"

definition perform_clustering ::
  "'g kmeans_lib \<Rightarrow> table \<Rightarrow> nat \<Rightarrow> string list option \<Rightarrow> 'g \<Rightarrow>
     (error + nat list \<times> scaler \<times> cell list list) \<times> 'g" where
  "perform_clustering lib df n_clusters features g =
     (let features = (case features of None \<Rightarrow> default_features | Some fs \<Rightarrow> fs)
      in case select_columns df features of
           Inl e \<Rightarrow> (Inl e, g)
         | Inr cols \<Rightarrow>
             (let X = map (\<lambda>c. map (\<lambda>v. fillna v (series_mean c)) c) cols
              in case fit_transform (length df) X of
                   Inl e \<Rightarrow> (Inl e, g)
                 | Inr (scaler, X_scaled) \<Rightarrow>
                     (case KMeans_fit_predict lib n_clusters (Some 42) 10 X_scaled g of
                        (Inl e, g') \<Rightarrow> (Inl e, g')
                      | (Inr clusters, g') \<Rightarrow> (Inr (clusters, scaler, X_scaled), g'))))"

text \<open>A row of the clustered frame: the row with its two new columns.\<close>

record clustered = country +
  Cluster :: nat
  Cluster_Name :: string

definition with_cluster :: "country \<Rightarrow> nat \<Rightarrow> clustered" where
  "with_cluster r c =
     \<lparr>country_name = country_name r, ladder_score = ladder_score r,
      logged_gdp = logged_gdp r, social_support = social_support r,
      healthy_life = healthy_life r, freedom_choices = freedom_choices r,
      generosity = generosity r, corruption = corruption r,
      Cluster = c, Cluster_Name = get_cluster_names (int c)\<rparr>"

text \<open>The dictionary \<^verbatim>\<open>feature_map\<close> of \<^verbatim>\<open>clustered_data\<close>.\<close>

definition feature_map :: "string \<rightharpoonup> string" where
  "feature_map = [''ladder'' \<mapsto> ''Ladder score'', ''gdp'' \<mapsto> ''Logged GDP per capita'',
     ''social'' \<mapsto> ''Social support'', ''health'' \<mapsto> ''Healthy life expectancy'',
     ''freedom'' \<mapsto> ''Freedom to make life choices'']"

text \<open>
  \<^verbatim>\<open>clustered_data\<close>, as a function of the filtered frame and of the two inputs it
  reads. The comprehension
  \<^verbatim>\<open>[feature_map[f] for f in input.cluster_features() if f in feature_map]\<close> is
  \<open>List.map_filter feature_map\<close>. Assigning the labels as a new column raises when their
  number is not the number of rows.
\<close>

definition clustered_data ::
  "'g kmeans_lib \<Rightarrow> table \<Rightarrow> string list \<Rightarrow> nat \<Rightarrow> 'g \<Rightarrow>
     (error + clustered list \<times> cell list list \<times> string list) \<times> 'g" where
  "clustered_data lib filtered cluster_features n_clusters g =
     (let df = filtered;
          selected_features = List.map_filter feature_map cluster_features;
          selected_features = (if selected_features = [] then [''Ladder score'']
                               else selected_features)
      in case perform_clustering lib df n_clusters (Some selected_features) g of
           (Inl e, g') \<Rightarrow> (Inl e, g')
         | (Inr (clusters, scaler, X_scaled), g') \<Rightarrow>
             if length clusters \<noteq> length df then (Inl ValueError, g')
             else (Inr (map2 with_cluster df clusters, X_scaled, selected_features), g'))"

section \<open>The reactive view graph\<close>

text \<open>
  Modelled from the spec: the decorator \<^verbatim>\<open>reactive.Calc\<close> and the input signals of the
  Shiny library, which keep the three views of \<^verbatim>\<open>server\<close>; the library is not part
  of the repository. Section 4.4 of the spec gives the mechanism. Every signal and every
  view carries a generation, "a version counter incremented whenever a signal or view's
  value changes". A view is Stale, or holds in its cache slot the result of its last
  computation (the value, or the error the computation raised) with "a generation stamp
  matching the current generation of every upstream dependency". A read "with all
  upstream generations unchanged returns the cached value with no recomputation"; any
  other read computes, stores the result with the present stamps and counts the
  computation. Reads are modelled one at a time, so the Computing state of the spec is
  entered and left within one read.

  A signal: its value and its generation. Setting it to the value it has changes nothing
  ("by value-equality, not merely by being touched").
\<close>

record 'a signal =
  sig_value :: 'a
  sig_gen :: nat

definition new_signal :: "'a \<Rightarrow> 'a signal" where
  "new_signal v = \<lparr>sig_value = v, sig_gen = 0\<rparr>"

definition set_signal :: "'a \<Rightarrow> 'a signal \<Rightarrow> 'a signal" where
  "set_signal v s =
     (if v = sig_value s then s else \<lparr>sig_value = v, sig_gen = Suc (sig_gen s)\<rparr>)"

text \<open>
  A view: its cache slot, its own generation, and the call counter of its computation
  routine.
\<close>

datatype 'v slot = Stale | Cached 'v "nat list" | Failed error "nat list"

record 'v view =
  slot :: "'v slot"
  view_gen :: nat
  computations :: nat

definition new_view :: "'v view" where
  "new_view = \<lparr>slot = Stale, view_gen = 0, computations = 0\<rparr>"

fun stamp_of :: "'v slot \<Rightarrow> nat list option" where
  "stamp_of Stale = None"
| "stamp_of (Cached v st) = Some st"
| "stamp_of (Failed e st) = Some st"

fun outcome_of :: "'v slot \<Rightarrow> (error + 'v) option" where
  "outcome_of Stale = None"
| "outcome_of (Cached v st) = Some (Inr v)"
| "outcome_of (Failed e st) = Some (Inl e)"

definition store :: "error + 'v \<Rightarrow> nat list \<Rightarrow> 'v slot" where
  "store r st = (case r of Inl e \<Rightarrow> Failed e st | Inr v \<Rightarrow> Cached v st)"

text \<open>
  A computation with the result \<open>result\<close> under the stamps \<open>stamps\<close>: the result is
  stored, the counter goes up, and the view's generation goes up when the result differs
  from the one held before.
\<close>

definition recompute :: "nat list \<Rightarrow> error + 'v \<Rightarrow> 'v view \<Rightarrow> (error + 'v) \<times> 'v view" where
  "recompute stamps result vw =
     (result,
      \<lparr>slot = store result stamps,
       view_gen = (if outcome_of (slot vw) = Some result then view_gen vw
                   else Suc (view_gen vw)),
       computations = Suc (computations vw)\<rparr>)"

text \<open>A read of a view whose upstream generations are \<open>stamps\<close> at present.\<close>

definition read_view :: "nat list \<Rightarrow> error + 'v \<Rightarrow> 'v view \<Rightarrow> (error + 'v) \<times> 'v view" where
  "read_view stamps result vw =
     (case slot vw of
        Stale \<Rightarrow> recompute stamps result vw
      | Cached v st \<Rightarrow> if st = stamps then (Inr v, vw) else recompute stamps result vw
      | Failed e st \<Rightarrow> if st = stamps then (Inl e, vw) else recompute stamps result vw)"

text \<open>
  What the views compute from, beside the inputs: the Base Table \<^verbatim>\<open>data\<close> loaded at
  import time, the clustering library with the state of the process's random generator,
  and the regular-expression engine.
\<close>

record 'g env =
  env_data :: table
  env_lib :: "'g kmeans_lib"
  env_rng :: 'g
  env_engine :: regex_engine

text \<open>
  The graph of \<^verbatim>\<open>server\<close>: the five inputs the views read, and the three views. The
  inputs start at the values the controls of \<^verbatim>\<open>app_ui\<close> are created with.
\<close>

record graph =
  input_happiness_range :: "(real \<times> real) signal"
  input_gdp_range :: "(real \<times> real) signal"
  input_n_clusters :: "nat signal"
  input_cluster_features :: "string list signal"
  input_country_search :: "string signal"
  filtered_view :: "table view"
  clustered_view :: "(clustered list \<times> cell list list \<times> string list) view"
  searched_view :: "table view"

definition init_graph :: graph where
  "init_graph =
     \<lparr>input_happiness_range = new_signal (3, 8),
      input_gdp_range = new_signal (7, 11.5),
      input_n_clusters = new_signal 4,
      input_cluster_features = new_signal [''ladder'', ''gdp'', ''social'', ''health''],
      input_country_search = new_signal [],
      filtered_view = new_view,
      clustered_view = new_view,
      searched_view = new_view\<rparr>"

text \<open>
  The three views, each with the upstream dependencies its function reads:
  \<^verbatim>\<open>filtered_data\<close> reads the two range inputs; \<^verbatim>\<open>clustered_data\<close> reads the filtered
  view, the selected features and the cluster count; \<^verbatim>\<open>searched_data\<close> reads the
  search string. Reading the clustered view reads the filtered view first, which brings
  the generation of that view up to date.
\<close>

definition read_filtered :: "'g env \<Rightarrow> graph \<Rightarrow> (error + table) \<times> graph" where
  "read_filtered E gr =
     (case read_view [sig_gen (input_happiness_range gr), sig_gen (input_gdp_range gr)]
             (Inr (filtered_data (env_data E) (sig_value (input_happiness_range gr))
                     (sig_value (input_gdp_range gr))))
             (filtered_view gr) of
        (r, vw) \<Rightarrow> (r, gr\<lparr>filtered_view := vw\<rparr>))"

definition read_clustered ::
  "'g env \<Rightarrow> graph \<Rightarrow> (error + clustered list \<times> cell list list \<times> string list) \<times> graph" where
  "read_clustered E gr =
     (case read_filtered E gr of
        (f, gr1) \<Rightarrow>
          (case read_view [view_gen (filtered_view gr1), sig_gen (input_cluster_features gr1),
                           sig_gen (input_n_clusters gr1)]
                  (case f of
                     Inl e \<Rightarrow> Inl e
                   | Inr df \<Rightarrow> fst (clustered_data (env_lib E) df (sig_value (input_cluster_features gr1))
                                     (sig_value (input_n_clusters gr1)) (env_rng E)))
                  (clustered_view gr1) of
             (r, vw) \<Rightarrow> (r, gr1\<lparr>clustered_view := vw\<rparr>)))"

definition read_searched :: "'g env \<Rightarrow> graph \<Rightarrow> (error + table) \<times> graph" where
  "read_searched E gr =
     (case read_view [sig_gen (input_country_search gr)]
             (searched_data (env_engine E) (env_data E) (sig_value (input_country_search gr)))
             (searched_view gr) of
        (r, vw) \<Rightarrow> (r, gr\<lparr>searched_view := vw\<rparr>))"

text \<open>A session: the inputs are set and the views are read, one event after the other.\<close>

datatype event =
    Set_happiness_range "real \<times> real"
  | Set_gdp_range "real \<times> real"
  | Set_n_clusters nat
  | Set_cluster_features "string list"
  | Set_country_search string
  | Read_filtered
  | Read_clustered
  | Read_searched

fun step :: "'g env \<Rightarrow> event \<Rightarrow> graph \<Rightarrow> graph" where
  "step E (Set_happiness_range v) gr = gr\<lparr>input_happiness_range := set_signal v (input_happiness_range gr)\<rparr>"
| "step E (Set_gdp_range v) gr = gr\<lparr>input_gdp_range := set_signal v (input_gdp_range gr)\<rparr>"
| "step E (Set_n_clusters v) gr = gr\<lparr>input_n_clusters := set_signal v (input_n_clusters gr)\<rparr>"
| "step E (Set_cluster_features v) gr = gr\<lparr>input_cluster_features := set_signal v (input_cluster_features gr)\<rparr>"
| "step E (Set_country_search v) gr = gr\<lparr>input_country_search := set_signal v (input_country_search gr)\<rparr>"
| "step E Read_filtered gr = snd (read_filtered E gr)"
| "step E Read_clustered gr = snd (read_clustered E gr)"
| "step E Read_searched gr = snd (read_searched E gr)"

definition run :: "'g env \<Rightarrow> event list \<Rightarrow> graph \<Rightarrow> graph" where
  "run E events gr = fold (step E) events gr"

text \<open>The combinations of upstream values at which a run reads the filtered view.\<close>

fun filtered_inputs_read ::
  "'g env \<Rightarrow> event list \<Rightarrow> graph \<Rightarrow> ((real \<times> real) \<times> (real \<times> real)) list" where
  "filtered_inputs_read E [] gr = []"
| "filtered_inputs_read E (e # es) gr =
     (if e = Read_filtered \<or> e = Read_clustered
      then [(sig_value (input_happiness_range gr), sig_value (input_gdp_range gr))] else []) @
     filtered_inputs_read E es (step E e gr)"

text \<open>
  The invariant of a view under the present upstream generations \<open>now\<close>: the stamp it
  holds is not ahead of the present, and neither its generation nor its counter has
  outrun the stamp.
\<close>

definition view_ok :: "nat list \<Rightarrow> 'v view \<Rightarrow> bool" where
  "view_ok now vw =
     (view_gen vw \<le> computations vw \<and>
      (case stamp_of (slot vw) of
         None \<Rightarrow> computations vw = 0
       | Some st \<Rightarrow> list_all2 (\<le>) st now \<and> computations vw \<le> Suc (sum_list st)))"

definition graph_ok :: "graph \<Rightarrow> bool" where
  "graph_ok gr =
     (view_ok [sig_gen (input_happiness_range gr), sig_gen (input_gdp_range gr)] (filtered_view gr) \<and>
      view_ok [sig_gen (input_country_search gr)] (searched_view gr) \<and>
      view_ok [view_gen (filtered_view gr), sig_gen (input_cluster_features gr),
               sig_gen (input_n_clusters gr)] (clustered_view gr))"

text \<open>The result the clustered view computes in a graph.\<close>

definition clustered_result ::
  "'g env \<Rightarrow> graph \<Rightarrow> error + clustered list \<times> cell list list \<times> string list" where
  "clustered_result E gr =
     (case fst (read_filtered E gr) of
        Inl e \<Rightarrow> Inl e
      | Inr df \<Rightarrow> fst (clustered_data (env_lib E) df (sig_value (input_cluster_features gr))
                        (sig_value (input_n_clusters gr)) (env_rng E)))"

text \<open>
  The present generations of the upstream dependencies of each view. A view is fresh
  when the stamp it holds is the present one; the clustered view is judged after the
  filtered view, its upstream view, has been brought up to date.
\<close>

definition filtered_stamps :: "graph \<Rightarrow> nat list" where
  "filtered_stamps gr = [sig_gen (input_happiness_range gr), sig_gen (input_gdp_range gr)]"

definition searched_stamps :: "graph \<Rightarrow> nat list" where
  "searched_stamps gr = [sig_gen (input_country_search gr)]"

definition clustered_stamps :: "graph \<Rightarrow> nat list" where
  "clustered_stamps gr = [view_gen (filtered_view gr), sig_gen (input_cluster_features gr),
                          sig_gen (input_n_clusters gr)]"

definition fresh :: "nat list \<Rightarrow> 'v view \<Rightarrow> bool" where
  "fresh stamps vw = (stamp_of (slot vw) = Some stamps)"

definition fresh_filtered :: "graph \<Rightarrow> bool" where
  "fresh_filtered gr = fresh (filtered_stamps gr) (filtered_view gr)"

definition fresh_searched :: "graph \<Rightarrow> bool" where
  "fresh_searched gr = fresh (searched_stamps gr) (searched_view gr)"

definition fresh_clustered :: "'g env \<Rightarrow> graph \<Rightarrow> bool" where
  "fresh_clustered E gr =
     (let gr1 = snd (read_filtered E gr)
      in fresh (clustered_stamps gr1) (clustered_view gr1))"

text \<open>
  What the function of each view gives at the present values of the inputs:
  \<^verbatim>\<open>filtered_data\<close>, \<^verbatim>\<open>searched_data\<close>, and \<^verbatim>\<open>clustered_data\<close> on the result of
  \<^verbatim>\<open>filtered_data\<close>.
\<close>

definition filtered_now :: "'g env \<Rightarrow> graph \<Rightarrow> error + table" where
  "filtered_now E gr =
     Inr (filtered_data (env_data E) (sig_value (input_happiness_range gr))
            (sig_value (input_gdp_range gr)))"

definition searched_now :: "'g env \<Rightarrow> graph \<Rightarrow> error + table" where
  "searched_now E gr =
     searched_data (env_engine E) (env_data E) (sig_value (input_country_search gr))"

definition clustered_from ::
  "'g env \<Rightarrow> graph \<Rightarrow> error + table \<Rightarrow>
     error + clustered list \<times> cell list list \<times> string list" where
  "clustered_from E gr f =
     (case f of
        Inl e \<Rightarrow> Inl e
      | Inr df \<Rightarrow> fst (clustered_data (env_lib E) df (sig_value (input_cluster_features gr))
                        (sig_value (input_n_clusters gr)) (env_rng E)))"

definition clustered_now ::
  "'g env \<Rightarrow> graph \<Rightarrow> error + clustered list \<times> cell list list \<times> string list" where
  "clustered_now E gr = clustered_from E gr (filtered_now E gr)"

text \<open>
  Two reads of a view in a row, with no input set in between: the second read returns
  what the first returned and leaves the graph (and so the counter) as the first left
  it; after the first read the view is fresh; and the two reads make no computation when
  the view was fresh and exactly one when it was not.
\<close>

definition memoized ::
  "(graph \<Rightarrow> 'r \<times> graph) \<Rightarrow> (graph \<Rightarrow> 'v view) \<Rightarrow> (graph \<Rightarrow> bool) \<Rightarrow> graph \<Rightarrow> bool" where
  "memoized read_it the_view is_fresh gr =
     (case read_it gr of
        (r1, gr1) \<Rightarrow>
          (case read_it gr1 of
             (r2, gr2) \<Rightarrow>
               r2 = r1 \<and> gr2 = gr1 \<and> is_fresh gr1 \<and>
               computations (the_view gr2) =
                 (if is_fresh gr then computations (the_view gr)
                  else Suc (computations (the_view gr)))))"

text \<open>
  An event changes the value of an input; and which inputs each view reads directly.
\<close>

fun changes :: "event \<Rightarrow> graph \<Rightarrow> bool" where
  "changes (Set_happiness_range v) gr = (v \<noteq> sig_value (input_happiness_range gr))"
| "changes (Set_gdp_range v) gr = (v \<noteq> sig_value (input_gdp_range gr))"
| "changes (Set_n_clusters v) gr = (v \<noteq> sig_value (input_n_clusters gr))"
| "changes (Set_cluster_features v) gr = (v \<noteq> sig_value (input_cluster_features gr))"
| "changes (Set_country_search v) gr = (v \<noteq> sig_value (input_country_search gr))"
| "changes Read_filtered gr = False"
| "changes Read_clustered gr = False"
| "changes Read_searched gr = False"

fun feeds_filtered :: "event \<Rightarrow> bool" where
  "feeds_filtered (Set_happiness_range v) = True"
| "feeds_filtered (Set_gdp_range v) = True"
| "feeds_filtered e = False"

fun feeds_clustered :: "event \<Rightarrow> bool" where
  "feeds_clustered (Set_n_clusters v) = True"
| "feeds_clustered (Set_cluster_features v) = True"
| "feeds_clustered e = False"

fun feeds_searched :: "event \<Rightarrow> bool" where
  "feeds_searched (Set_country_search v) = True"
| "feeds_searched e = False"

text \<open>The read of a view in the graph \<open>gr\<close> performs one computation.\<close>

definition recomputes :: "(graph \<Rightarrow> 'r \<times> graph) \<Rightarrow> (graph \<Rightarrow> 'v view) \<Rightarrow> graph \<Rightarrow> bool" where
  "recomputes read_it the_view gr =
     (computations (the_view (snd (read_it gr))) = Suc (computations (the_view gr)))"

text \<open>
  The invariant of the cached results: a fresh view holds what its function gives at
  the present inputs, the clustered view with respect to the result held by the
  filtered view.
\<close>

definition coherent :: "'g env \<Rightarrow> graph \<Rightarrow> bool" where
  "coherent E gr =
     ((fresh_filtered gr \<longrightarrow>
         outcome_of (slot (filtered_view gr)) = Some (filtered_now E gr)) \<and>
      (fresh_searched gr \<longrightarrow>
         outcome_of (slot (searched_view gr)) = Some (searched_now E gr)) \<and>
      (fresh (clustered_stamps gr) (clustered_view gr) \<longrightarrow>
         (\<exists>f. outcome_of (slot (filtered_view gr)) = Some f \<and>
              outcome_of (slot (clustered_view gr)) = Some (clustered_from E gr f))))"

text \<open>
  A library for the examples: the generator state is a number, and the "algorithm" puts
  every row into the cluster that the state names.
\<close>

definition toy_lib :: "nat kmeans_lib" where
  "toy_lib = \<lparr>RandomState = (\<lambda>seed. seed),
     relocate = (\<lambda>g n_init k X.
        (if X = [] \<or> k = 0 then Inl ValueError else Inr (map (\<lambda>_. g mod k) (hd X)), g + 1))\<rparr>"

text \<open>Three rows for the examples.\<close>

definition finland :: country where
  "finland = \<lparr>country_name = Some ''Finland'', ladder_score = Num 7.804, logged_gdp = Num 10.792,
     social_support = Num 0.969, healthy_life = Num 71.15, freedom_choices = Num 0.961,
     generosity = Num (-0.019), corruption = Num 0.182\<rparr>"

definition lebanon :: country where
  "lebanon = \<lparr>country_name = Some ''Lebanon'', ladder_score = Num 2.392, logged_gdp = Num 9.478,
     social_support = Num 0.53, healthy_life = Num 66.149, freedom_choices = Num 0.474,
     generosity = Num (-0.141), corruption = Num 0.891\<rparr>"

definition luxembourg :: country where
  "luxembourg = \<lparr>country_name = Some ''Luxembourg'', ladder_score = Num 7.228, logged_gdp = Num 11.66,
     social_support = Num 0.879, healthy_life = Num 71.675, freedom_choices = Num 0.915,
     generosity = Num 0.024, corruption = Num 0.345\<rparr>"

definition nameless :: country where
  "nameless = lebanon\<lparr>country_name := None\<rparr>"

definition brazzaville :: country where
  "brazzaville = lebanon\<lparr>country_name := Some ''Congo (Brazzaville)''\<rparr>"

text \<open>An environment and a session for the examples.\<close>

definition toy_env :: "nat env" where
  "toy_env = \<lparr>env_data = [finland, lebanon, luxembourg], env_lib = toy_lib, env_rng = 0,
     env_engine = (\<lambda>p. None)\<rparr>"

definition there_and_back :: "event list" where
  "there_and_back = [Read_filtered, Set_happiness_range (0, 10), Read_filtered,
                     Set_happiness_range (3, 8), Read_filtered]"

definition one_change :: "event list" where
  "one_change = [Read_filtered, Set_happiness_range (0, 10), Read_filtered, Read_filtered]"

definition changed_back :: "event list" where
  "changed_back = one_change @ [Set_happiness_range (3, 8)]"

section \<open>Properties\<close>

subsection \<open>Cluster names\<close>

lemma names_small: "names 0 = Some ''Very Happy''" "names 1 = Some ''Happy''"
  "names 2 = Some ''Moderate''" "names 3 = Some ''Struggling''"
  by (simp_all add: names_def)

lemma names_large: "4 \<le> i \<Longrightarrow> names i = None"
  by (simp add: names_def)

lemma names_negative: "i < 0 \<Longrightarrow> names i = None"
  by (simp add: names_def)

lemma digit_val_digit_char: "d < 10 \<Longrightarrow> digit_val (digit_char d) = d"
proof -
  assume "d < 10"
  then have "d \<in> {0, 1, 2, 3, 4, 5, 6, 7, 8, 9}" by auto
  then show ?thesis
    by (auto simp: digit_val_def digit_char_def)
qed

lemma decimal_val_snoc: "decimal_val (s @ [c]) = 10 * decimal_val s + digit_val c"
  by (simp add: decimal_val_def)

lemma decimal_val_digits: "decimal_val (digits n) = n"
proof (induction n rule: digits.induct)
  case (1 n)
  show ?case
  proof (cases "n < 10")
    case True
    then show ?thesis
      by (subst digits.simps) (simp add: decimal_val_def digit_val_digit_char)
  next
    case False
    then have "decimal_val (digits (n div 10)) = n div 10"
      using "1.IH" by simp
    with False show ?thesis
      by (subst digits.simps) (simp add: decimal_val_snoc digit_val_digit_char)
  qed
qed

text \<open>
  C6. \<^verbatim>\<open>get_cluster_names\<close> maps 0 to "Very Happy", 1 to "Happy", 2 to "Moderate" and
  3 to "Struggling"; for every integer id from 4 on it returns "Cluster " followed by
  the decimal numeral of the id (the digits that read back as the id); so id 0 gives
  "Very Happy" and id 5 gives "Cluster 5".
\<close>

theorem get_cluster_names_table:
  "get_cluster_names 0 = ''Very Happy'' \<and>
   get_cluster_names 1 = ''Happy'' \<and>
   get_cluster_names 2 = ''Moderate'' \<and>
   get_cluster_names 3 = ''Struggling'' \<and>
   (\<forall>i. 4 \<le> i \<longrightarrow>
      get_cluster_names i = ''Cluster '' @ str_int i \<and>
      str_int i = digits (nat i) \<and> int (decimal_val (digits (nat i))) = i) \<and>
   get_cluster_names 5 = ''Cluster 5''"
proof -
  have small: "get_cluster_names 0 = ''Very Happy''" "get_cluster_names 1 = ''Happy''"
    "get_cluster_names 2 = ''Moderate''" "get_cluster_names 3 = ''Struggling''"
    by (simp_all add: get_cluster_names_def names_small)
  have large: "get_cluster_names i = ''Cluster '' @ str_int i \<and>
      str_int i = digits (nat i) \<and> int (decimal_val (digits (nat i))) = i" if "4 \<le> i" for i
    using that by (simp add: get_cluster_names_def names_large str_int_def decimal_val_digits)
  have five: "get_cluster_names 5 = ''Cluster 5''"
    by (simp add: get_cluster_names_def names_large str_int_def digits.simps digit_char_def)
  show ?thesis
    using small large five by blast
qed

theorem get_cluster_names_table_witness:
  "(4::int) \<le> 17 \<and> get_cluster_names 17 = ''Cluster 17'' \<and> get_cluster_names 0 = ''Very Happy''"
proof -
  have "str_int 17 = ''17''"
    by (simp add: str_int_def digits.simps digit_char_def)
  then show ?thesis
    using get_cluster_names_table by simp
qed

subsection \<open>Filter correctness\<close>

lemma in_closed_range_iff: "in_closed_range lo hi c \<longleftrightarrow> ge_cell c lo \<and> le_cell c hi"
  by (cases c) (auto simp: in_closed_range_def ge_cell_def le_cell_def)

lemma set_filtered_data:
  "set (filtered_data data (h_lo, h_hi) (g_lo, g_hi)) =
     {r \<in> set data. in_closed_range h_lo h_hi (ladder_score r) \<and>
                     in_closed_range g_lo g_hi (logged_gdp r)}"
  by (auto simp: filtered_data_def in_closed_range_iff)

text \<open>
  C2. For every happiness range [h_lo, h_hi] and GDP range [g_lo, g_hi], every row of the
  Filtered Table is a Base Table row whose happiness score lies in [h_lo, h_hi] and whose
  logged GDP lies in [g_lo, g_hi], and every Base Table row that is not in the Filtered
  Table has its score outside the one closed range or its GDP outside the other.
\<close>

theorem filter_correctness:
  "(\<forall>r \<in> set (filtered_data data (h_lo, h_hi) (g_lo, g_hi)).
      r \<in> set data \<and>
      in_closed_range h_lo h_hi (ladder_score r) \<and>
      in_closed_range g_lo g_hi (logged_gdp r)) \<and>
   (\<forall>r \<in> set data. r \<notin> set (filtered_data data (h_lo, h_hi) (g_lo, g_hi)) \<longrightarrow>
      \<not> in_closed_range h_lo h_hi (ladder_score r) \<or>
      \<not> in_closed_range g_lo g_hi (logged_gdp r))"
  unfolding set_filtered_data by blast

theorem filter_correctness_witness:
  "finland \<in> set (filtered_data [finland, lebanon, luxembourg] (3, 8) (7, 11.5)) \<and>
   in_closed_range 3 8 (ladder_score finland) \<and>
   in_closed_range 7 11.5 (logged_gdp finland) \<and>
   lebanon \<in> set [finland, lebanon, luxembourg] \<and>
   lebanon \<notin> set (filtered_data [finland, lebanon, luxembourg] (3, 8) (7, 11.5)) \<and>
   \<not> in_closed_range 3 8 (ladder_score lebanon) \<and>
   luxembourg \<notin> set (filtered_data [finland, lebanon, luxembourg] (3, 8) (7, 11.5)) \<and>
   \<not> in_closed_range 7 11.5 (logged_gdp luxembourg)"
proof -
  have in_f: "finland \<in> set (filtered_data [finland, lebanon, luxembourg] (3, 8) (7, 11.5))"
    by (simp add: filtered_data_def finland_def ge_cell_def le_cell_def)
  have out_l: "\<not> in_closed_range 3 8 (ladder_score lebanon)"
    by (simp add: in_closed_range_def lebanon_def)
  have out_x: "\<not> in_closed_range 7 11.5 (logged_gdp luxembourg)"
    by (simp add: in_closed_range_def luxembourg_def)
  show ?thesis
    using filter_correctness [of "[finland, lebanon, luxembourg]" 3 8 7 "11.5"] in_f out_l out_x
    by auto
qed

subsection \<open>Summary statistics\<close>

lemma sqrt_five_halves: "1.5811 < sqrt (5 / 2)" "sqrt (5 / 2) < 1.5812"
proof -
  show "1.5811 < sqrt (5 / 2)"
    by (rule real_less_rsqrt) (simp add: power2_eq_square)
  show "sqrt (5 / 2) < 1.5812"
    by (rule real_less_lsqrt) (simp_all add: power2_eq_square)
qed

text \<open>
  C7. On a table whose happiness column is the sequence 1, 2, 3, 4, 5 the summary is
  count 5, mean 3, median 3, sample standard deviation \<open>sqrt (5 / 2)\<close> (between 1.5811
  and 1.5812), minimum 1, maximum 5, and the interpolated quartiles 2 and 4.
\<close>

theorem summary_one_to_five:
  assumes "map ladder_score df = [Num 1, Num 2, Num 3, Num 4, Num 5]"
  shows "get_summary_stats df =
           \<lparr>count = 5, mean = Num 3, median = Num 3, std = Num (sqrt (5 / 2)),
            minimum = Num 1, maximum = Num 5, q25 = Num 2, q75 = Num 4\<rparr> \<and>
         1.5811 < sqrt (5 / 2) \<and> sqrt (5 / 2) < 1.5812"
proof -
  have "length (map ladder_score df) = 5"
    unfolding assms by simp
  then have len: "length df = 5"
    by simp
  have "get_summary_stats df =
           \<lparr>count = 5, mean = Num 3, median = Num 3, std = Num (sqrt (5 / 2)),
            minimum = Num 1, maximum = Num 5, q25 = Num 2, q75 = Num 4\<rparr>"
    by (simp add: get_summary_stats_def assms len series_mean_def series_median_def
        series_std_def series_min_def series_max_def series_quantile_def Let_def
        power2_eq_square)
  then show ?thesis
    using sqrt_five_halves by simp
qed

theorem summary_one_to_five_witness:
  "get_summary_stats (map (\<lambda>x. finland\<lparr>ladder_score := Num x\<rparr>) [1, 2, 3, 4, 5]) =
     \<lparr>count = 5, mean = Num 3, median = Num 3, std = Num (sqrt (5 / 2)),
      minimum = Num 1, maximum = Num 5, q25 = Num 2, q75 = Num 4\<rparr>"
proof -
  have "map ladder_score (map (\<lambda>x. finland\<lparr>ladder_score := Num x\<rparr>) [1, 2, 3, 4, 5]) =
          [Num 1, Num 2, Num 3, Num 4, Num 5]"
    by simp
  from summary_one_to_five [OF this] show ?thesis
    by simp
qed

lemma present_empty_iff: "present cs = [] \<longleftrightarrow> (\<forall>c \<in> set cs. c = NaN)"
  by (induction cs rule: present.induct) auto

text \<open>
  C8, as the code has it. \<^verbatim>\<open>get_summary_stats\<close> has no check of its input and no
  \<^verbatim>\<open>raise\<close>: on a table with zero rows it returns a summary, with count 0 and NaN
  for the mean, the median, the standard deviation, the minimum, the maximum and the
  two quartiles. No error is signalled.
\<close>

theorem summary_of_no_rows:
  "get_summary_stats [] =
     \<lparr>count = 0, mean = NaN, median = NaN, std = NaN,
      minimum = NaN, maximum = NaN, q25 = NaN, q75 = NaN\<rparr>"
  by (simp add: get_summary_stats_def series_mean_def series_median_def series_std_def
      series_min_def series_max_def series_quantile_def)

text \<open>
  C8, as the claim states it, fails: the call on the empty table returns, and what it
  returns holds NaN.
\<close>

theorem summary_of_no_rows_is_nan:
  "count (get_summary_stats []) = 0 \<and> mean (get_summary_stats []) = NaN \<and>
   std (get_summary_stats []) = NaN \<and> q25 (get_summary_stats []) = NaN"
  by (simp add: get_summary_stats_def series_mean_def series_std_def series_quantile_def)

subsection \<open>Imputation at load time\<close>

lemma series_mean_Num:
  "\<exists>c \<in> set cs. c \<noteq> NaN \<Longrightarrow>
     series_mean cs = Num (sum_list (present cs) / real (length (present cs)))"
  by (auto simp: series_mean_def Let_def present_empty_iff)

lemma fillna_Num: "fillna c (Num m) \<noteq> NaN"
  by (cases c) (simp_all add: fillna_def)

lemma map_col_load_data:
  "col \<in> set numeric_cols \<Longrightarrow>
     map col (load_data df) = map (\<lambda>r. fillna (col r) (series_mean (map col df))) df"
  by (auto simp: numeric_cols_def load_data_def)

lemma length_load_data: "length (load_data df) = length df"
  by (simp add: load_data_def)

lemma names_load_data: "map country_name (load_data df) = map country_name df"
  by (simp add: load_data_def)

text \<open>
  C9, amended. After the load, for every numeric column that holds at least one present
  value, the value of every row is present: a present entry is unchanged and a missing
  one has been replaced by the mean of the column over its present values.
\<close>

theorem load_data_imputes:
  assumes "col \<in> set numeric_cols" and "\<exists>r \<in> set raw. col r \<noteq> NaN"
  shows "(\<forall>r \<in> set (load_data raw). col r \<noteq> NaN) \<and>
         map col (load_data raw) =
           map (\<lambda>r. case col r of
                       Num x \<Rightarrow> Num x
                     | NaN \<Rightarrow> Num (sum_list (present (map col raw)) /
                                   real (length (present (map col raw))))) raw"
proof -
  let ?m = "sum_list (present (map col raw)) / real (length (present (map col raw)))"
  have m: "series_mean (map col raw) = Num ?m"
    using assms(2) by (intro series_mean_Num) auto
  have cols: "map col (load_data raw) = map (\<lambda>r. fillna (col r) (Num ?m)) raw"
    using map_col_load_data [OF assms(1), of raw] m by simp
  have "\<forall>c \<in> set (map col (load_data raw)). c \<noteq> NaN"
    unfolding cols by (auto simp: fillna_Num)
  then have "\<forall>r \<in> set (load_data raw). col r \<noteq> NaN"
    by auto
  moreover have "(\<lambda>r. fillna (col r) (Num ?m)) =
      (\<lambda>r. case col r of Num x \<Rightarrow> Num x | NaN \<Rightarrow> Num ?m)"
    by (auto simp: fillna_def fun_eq_iff split: cell.splits)
  ultimately show ?thesis
    using cols by simp
qed

theorem load_data_imputes_witness:
  "generosity \<in> set numeric_cols \<and> generosity finland \<noteq> NaN \<and>
   map generosity (load_data [finland, lebanon\<lparr>generosity := NaN\<rparr>, luxembourg]) =
     [Num (-0.019), Num 0.0025, Num 0.024]"
proof -
  have c: "generosity \<in> set numeric_cols"
    by (simp add: numeric_cols_def)
  have p: "\<exists>r \<in> set [finland, lebanon\<lparr>generosity := NaN\<rparr>, luxembourg]. generosity r \<noteq> NaN"
    by (simp add: finland_def)
  show ?thesis
    using load_data_imputes [OF c p] c
    by (simp add: finland_def lebanon_def luxembourg_def)
qed

text \<open>
  C9, as the claim states it, fails on a column with no present value: its mean is NaN,
  and filling with NaN leaves every entry missing.
\<close>

theorem load_data_all_missing:
  "generosity \<in> set numeric_cols \<and>
   map generosity (load_data [lebanon\<lparr>generosity := NaN\<rparr>]) = [NaN]"
  by (simp add: numeric_cols_def load_data_def series_mean_def fillna_def)


subsection \<open>Search\<close>

lemma of_char_lower_char:
  "(of_char (lower_char c) :: nat) =
     (if (65 \<le> (of_char c :: nat) \<and> (of_char c :: nat) \<le> 90) \<or>
         (192 \<le> (of_char c :: nat) \<and> (of_char c :: nat) \<le> 222 \<and> (of_char c :: nat) \<noteq> 215)
      then of_char c + 32 else of_char c)"
  by (auto simp add: lower_char_def Let_def)

lemma metachars_codes:
  "c \<in> set metachars \<longleftrightarrow>
     (of_char c :: nat) \<in> {46, 94, 36, 42, 43, 63, 123, 125, 91, 93, 124, 40, 41, 92}"
proof -
  have "c \<in> set metachars \<longleftrightarrow> (of_char c :: nat) \<in> of_char ` set metachars"
    by (auto simp: inj_image_mem_iff [OF inj_of_char])
  also have "(of_char ` set metachars :: nat set) =
      {46, 94, 36, 42, 43, 63, 123, 125, 91, 93, 124, 40, 41, 92}"
    by (simp add: metachars_def)
  finally show ?thesis .
qed

lemma lower_char_plain: "c \<notin> set metachars \<Longrightarrow> lower_char c \<notin> set metachars"
  unfolding metachars_codes of_char_lower_char by auto

lemma lower_plain:
  "list_all (\<lambda>c. c \<notin> set metachars) s \<Longrightarrow> list_all (\<lambda>c. c \<notin> set metachars) (lower s)"
  by (induction s) (auto simp: lower_def lower_char_plain)

lemma match_here_literal:
  "list_all (\<lambda>c. c \<notin> set metachars) p \<Longrightarrow> match_here p s \<longleftrightarrow> (\<exists>v. s = p @ v)"
proof (induction p s rule: match_here.induct)
  case (3 p ps c cs)
  then have "p \<noteq> CHR ''.''" by (auto simp: metachars_def)
  with 3 show ?case by auto
qed auto

lemma substring_Cons:
  "contains_substring (c # cs) p \<longleftrightarrow> (\<exists>v. c # cs = p @ v) \<or> contains_substring cs p"
proof
  assume "contains_substring (c # cs) p"
  then obtain u v where uv: "c # cs = u @ p @ v"
    unfolding contains_substring_def by blast
  show "(\<exists>v. c # cs = p @ v) \<or> contains_substring cs p"
  proof (cases u)
    case Nil
    with uv show ?thesis by auto
  next
    case (Cons a u')
    with uv show ?thesis by (auto simp: contains_substring_def)
  qed
next
  assume "(\<exists>v. c # cs = p @ v) \<or> contains_substring cs p"
  then show "contains_substring (c # cs) p"
  proof
    assume "\<exists>v. c # cs = p @ v"
    then show ?thesis unfolding contains_substring_def by (metis append_Nil)
  next
    assume "contains_substring cs p"
    then show ?thesis unfolding contains_substring_def by (metis append_Cons)
  qed
qed

lemma re_search_literal:
  "list_all (\<lambda>c. c \<notin> set metachars) p \<Longrightarrow> re_search p s \<longleftrightarrow> contains_substring s p"
proof (induction s)
  case Nil
  then show ?case by (cases p) (auto simp: contains_substring_def)
next
  case (Cons c cs)
  then show ?case
    by (simp add: match_here_literal substring_Cons)
qed

lemma plain_no_parens:
  "list_all (\<lambda>c. c \<notin> set metachars) p \<Longrightarrow> list_all (\<lambda>c. c \<noteq> CHR ''('' \<and> c \<noteq> CHR '')'') p"
  by (induction p) (auto simp: metachars_def)

lemma balanced_no_parens:
  "list_all (\<lambda>c. c \<noteq> CHR ''('' \<and> c \<noteq> CHR '')'') p \<Longrightarrow> balanced p d \<longleftrightarrow> d = 0"
  by (induction p) auto

lemma strip_groups_no_parens:
  "list_all (\<lambda>c. c \<noteq> CHR ''('' \<and> c \<noteq> CHR '')'') p \<Longrightarrow> strip_groups p = p"
  by (induction p) (auto simp: strip_groups_def)

lemma re_compile_literal:
  assumes "list_all (\<lambda>c. c \<notin> set metachars) p"
  shows "re_compile engine p = Some (re_search p)"
proof -
  have "interpreted p"
    using assms by (auto simp: interpreted_def list_all_iff)
  then show ?thesis
    using plain_no_parens [OF assms]
    by (simp add: re_compile_def balanced_no_parens strip_groups_no_parens)
qed

lemma hits_filter: "map fst (filter snd (zip xs (map f xs))) = filter f xs"
  by (induction xs) auto

lemma searched_data_no_text:
  assumes "country_search \<noteq> []" and "\<not> is_text_column (map country_name data)"
  shows "searched_data engine data country_search = Inl AttributeError"
  using assms by (simp add: searched_data_def str_accessor_def)

lemma searched_data_compiled:
  assumes "country_search \<noteq> []" and "is_text_column (map country_name data)"
    and "re_compile engine (lower country_search) = Some m"
  shows "searched_data engine data country_search = Inr (take 20 (filter (name_matches m) data))"
proof -
  have eq: "case_option False m \<circ> (map_option lower \<circ> country_name) = name_matches m"
    by (auto simp: fun_eq_iff name_matches_def split: option.splits)
  show ?thesis
    using assms
    by (simp add: searched_data_def str_accessor_def str_contains_def hits_filter eq)
qed

lemma searched_data_refused:
  assumes "country_search \<noteq> []" and "is_text_column (map country_name data)"
    and "re_compile engine (lower country_search) = None"
  shows "searched_data engine data country_search = Inl ReError"
  using assms by (simp add: searched_data_def str_accessor_def str_contains_def)

lemma searched_data_empty: "searched_data engine data [] = Inr (take 20 data)"
  by (simp add: searched_data_def)

lemma searched_data_length: "searched_data engine data s = Inr t \<Longrightarrow> length t \<le> 20"
  by (auto simp: searched_data_def Let_def split: if_splits sum.splits)

lemma searched_data_literal:
  assumes "country_search \<noteq> []" and "is_text_column (map country_name data)"
    and "list_all (\<lambda>c. c \<notin> set metachars) country_search"
  shows "searched_data engine data country_search =
    Inr (take 20 (filter (\<lambda>r. \<exists>s. country_name r = Some s \<and>
                              contains_substring (lower s) (lower country_search)) data))"
proof -
  have plain: "list_all (\<lambda>c. c \<notin> set metachars) (lower country_search)"
    using assms(3) by (rule lower_plain)
  have "name_matches (re_search (lower country_search)) =
      (\<lambda>r. \<exists>s. country_name r = Some s \<and> contains_substring (lower s) (lower country_search))"
    by (auto simp: name_matches_def fun_eq_iff re_search_literal [OF plain] split: option.splits)
  then show ?thesis
    using searched_data_compiled [OF assms(1,2) re_compile_literal [OF plain]] by simp
qed

lemma is_text_column_named:
  "\<exists>r \<in> set data. country_name r \<noteq> None \<Longrightarrow> is_text_column (map country_name data)"
  by (auto simp: is_text_column_def list_ex_iff)

lemma is_text_column_filter:
  assumes "is_text_column (map country_name data)"
  shows "is_text_column (map country_name (filter (\<lambda>r. country_name r \<noteq> None) data))"
proof (cases "\<exists>r \<in> set data. country_name r \<noteq> None")
  case True
  then have "\<exists>r \<in> set (filter (\<lambda>r. country_name r \<noteq> None) data). country_name r \<noteq> None"
    by auto
  then show ?thesis
    by (rule is_text_column_named)
next
  case False
  then have "filter (\<lambda>r. country_name r \<noteq> None) data = []"
    by (auto simp: filter_empty_conv)
  then show ?thesis
    by (simp add: is_text_column_def)
qed

text \<open>
  C10, amended. For every non-empty search string and every Base Table whose name
  column is a text column (it has no rows, or at least one name is present), the rows
  whose country name is missing play no part in the search: the outcome is the one the
  Base Table without those rows gives, no row of a Searched Table has a missing name,
  and the search raises exactly when the pattern is refused, whatever the rows are.
\<close>

theorem missing_name_is_no_match:
  assumes "country_search \<noteq> []" and "is_text_column (map country_name data)"
  shows "searched_data engine data country_search =
           searched_data engine (filter (\<lambda>r. country_name r \<noteq> None) data) country_search \<and>
         (\<forall>t. searched_data engine data country_search = Inr t \<longrightarrow>
              (\<forall>r \<in> set t. country_name r \<noteq> None)) \<and>
         ((\<exists>e. searched_data engine data country_search = Inl e) \<longleftrightarrow>
            re_compile engine (lower country_search) = None)"
proof (cases "re_compile engine (lower country_search)")
  case None
  then show ?thesis
    using assms is_text_column_filter [OF assms(2)] by (simp add: searched_data_refused)
next
  case (Some m)
  have "filter (name_matches m) (filter (\<lambda>r. country_name r \<noteq> None) data) =
        filter (name_matches m) data"
    by (auto simp: name_matches_def intro: filter_cong split: option.splits)
  moreover have "\<forall>r \<in> set (take 20 (filter (name_matches m) data)). country_name r \<noteq> None"
    by (auto dest!: in_set_takeD simp: name_matches_def split: option.splits)
  ultimately show ?thesis
    using assms Some is_text_column_filter [OF assms(2)] by (simp add: searched_data_compiled)
qed

theorem missing_name_is_no_match_witness:
  "''FIN'' \<noteq> [] \<and>
   is_text_column (map country_name [nameless, finland, luxembourg]) \<and>
   searched_data (\<lambda>p. None) [nameless, finland, luxembourg] ''FIN'' = Inr [finland] \<and>
   country_name nameless = None"
proof -
  have ne: "''FIN'' \<noteq> []" by simp
  have tc: "is_text_column (map country_name [nameless, finland, luxembourg])"
    by (simp add: is_text_column_def finland_def)
  have "lower ''FIN'' = ''fin''" "lower ''Luxembourg'' = ''luxembourg''"
    "lower ''Finland'' = ''finland''"
    by code_simp+
  then have "searched_data (\<lambda>p. None) [finland, luxembourg] ''FIN'' = Inr [finland]"
    by (simp add: searched_data_def str_accessor_def is_text_column_def str_contains_def
        re_compile_def interpreted_def strip_groups_def metachars_def
        finland_def luxembourg_def)
  moreover have "filter (\<lambda>r. country_name r \<noteq> None) [nameless, finland, luxembourg] =
      [finland, luxembourg]"
    by (simp add: nameless_def finland_def luxembourg_def)
  ultimately show ?thesis
    using missing_name_is_no_match [OF ne tc, of "\<lambda>p. None"] tc
    by (simp add: nameless_def)
qed

text \<open>
  C10, as the claim states it, fails on a Base Table in which every name is missing: the
  name column is then no text column, and the search raises AttributeError.
\<close>

theorem all_names_missing_raises:
  "''fin'' \<noteq> [] \<and> country_name nameless = None \<and>
   searched_data (\<lambda>p. None) [nameless, nameless] ''fin'' = Inl AttributeError"
  by (simp add: searched_data_def str_accessor_def is_text_column_def nameless_def)

lemma lower_finland: "lower ''Finland'' = ''finland''"
  by code_simp

lemma lower_brazzaville: "lower ''Congo (Brazzaville)'' = ''congo (brazzaville)''"
  by code_simp

lemma lower_dot: "lower ''.'' = ''.''"
  by code_simp

text \<open>
  C3 at search strings with pattern characters. \<^verbatim>\<open>str.contains\<close> reads the search
  string as a pattern. For "." the dot matches any character, and the Searched Table
  holds Finland and Lebanon, neither of whose names contains a dot. For
  "Congo (Brazzaville)" the parentheses form a group, the pattern asks for
  "congo brazzaville", and the row of that very name is not found. For "(" the pattern
  is refused and the view raises. (\<open>searched_data_literal\<close>, \<open>searched_data_empty\<close> and
  \<open>searched_data_length\<close> above are what holds: a search string without pattern
  characters selects by substring on a text column, the empty string gives the first 20
  rows, and no table has more than 20 rows.)
\<close>

theorem search_string_is_read_as_pattern:
  "searched_data engine [finland, lebanon] ''.'' = Inr [finland, lebanon] \<and>
   country_name finland = Some ''Finland'' \<and>
   \<not> contains_substring (lower ''Finland'') (lower ''.'') \<and>
   searched_data engine [finland, brazzaville] ''Congo (Brazzaville)'' = Inr [] \<and>
   country_name brazzaville = Some ''Congo (Brazzaville)'' \<and>
   contains_substring (lower ''Congo (Brazzaville)'') (lower ''Congo (Brazzaville)'') \<and>
   searched_data engine [finland, brazzaville] ''('' = Inl ReError"
proof -
  have dot: "searched_data engine [finland, lebanon] ''.'' = Inr [finland, lebanon]"
    by (simp add: searched_data_def str_accessor_def is_text_column_def str_contains_def
        re_compile_def interpreted_def strip_groups_def metachars_def lower_def lower_char_def
        finland_def lebanon_def)
  have no_dot: "\<not> contains_substring (lower ''Finland'') (lower ''.'')"
  proof
    assume "contains_substring (lower ''Finland'') (lower ''.'')"
    then obtain u v where "lower ''Finland'' = u @ lower ''.'' @ v"
      unfolding contains_substring_def by blast
    then have "set (lower ''.'') \<subseteq> set (lower ''Finland'')"
      by (metis Un_upper1 Un_upper2 set_append subset_trans)
    then have "CHR ''.'' \<in> set ''finland''"
      by (simp add: lower_finland lower_dot)
    then show False by simp
  qed
  have group: "searched_data engine [finland, brazzaville] ''Congo (Brazzaville)'' = Inr []"
    by (simp add: searched_data_def str_accessor_def is_text_column_def str_contains_def
        re_compile_def interpreted_def strip_groups_def metachars_def lower_brazzaville
        lower_finland finland_def brazzaville_def)
  have itself: "contains_substring (lower ''Congo (Brazzaville)'') (lower ''Congo (Brazzaville)'')"
    unfolding contains_substring_def by (metis append_Nil append_Nil2)
  have refused: "searched_data engine [finland, brazzaville] ''('' = Inl ReError"
    by (simp add: searched_data_def str_accessor_def is_text_column_def str_contains_def
        re_compile_def interpreted_def strip_groups_def metachars_def lower_def lower_char_def
        finland_def)
  show ?thesis
    using dot no_dot group itself refused by (simp add: finland_def brazzaville_def)
qed

subsection \<open>Clustering\<close>

lemma KMeans_seeded:
  "KMeans_fit_predict lib k (Some seed) n_init X g =
     (fst (relocate lib (RandomState lib seed) n_init k X), g)"
  by (simp add: KMeans_fit_predict_def)

lemma perform_clustering_keeps_generator:
  "snd (perform_clustering lib df k features g) = g"
  by (auto simp: perform_clustering_def KMeans_seeded Let_def split: sum.splits prod.splits)

lemma perform_clustering_ignores_generator:
  "fst (perform_clustering lib df k features g) = fst (perform_clustering lib df k features g')"
  by (auto simp: perform_clustering_def KMeans_seeded Let_def split: sum.splits prod.splits)

text \<open>
  C5. For a fixed table, fixed feature columns and a fixed cluster count, the result of
  the Clustering Adapter (the labels, the scaler and the scaled matrix, or the error)
  does not depend on the state of the process's random generator, and the call leaves
  that state as it found it; so a second call gives the result of the first.
\<close>

theorem perform_clustering_deterministic:
  "fst (perform_clustering lib df k features g) = fst (perform_clustering lib df k features g') \<and>
   snd (perform_clustering lib df k features g) = g \<and>
   (case perform_clustering lib df k features g of
      (first, g1) \<Rightarrow> (case perform_clustering lib df k features g1 of
                       (second, g2) \<Rightarrow> second = first))"
proof -
  have "fst (perform_clustering lib df k features (snd (perform_clustering lib df k features g))) =
        fst (perform_clustering lib df k features g)"
    by (rule perform_clustering_ignores_generator)
  then have "case perform_clustering lib df k features g of
      (first, g1) \<Rightarrow> (case perform_clustering lib df k features g1 of
                       (second, g2) \<Rightarrow> second = first)"
    by (simp add: case_prod_beta)
  then show ?thesis
    using perform_clustering_ignores_generator [of lib df k features g g']
      perform_clustering_keeps_generator [of lib df k features g]
    by blast
qed

lemma perform_clustering_None:
  "perform_clustering lib df k None g = perform_clustering lib df k (Some default_features) g"
  by (simp add: perform_clustering_def)

lemma perform_clustering_no_features:
  "perform_clustering lib df k (Some []) g = (Inl ValueError, g)"
  by (simp add: perform_clustering_def select_columns_def fit_transform_def)

lemma column_ladder: "column ''Ladder score'' = Inr ladder_score"
  by (simp add: column_def)

lemma select_ladder: "select_columns df [''Ladder score''] = Inr [map ladder_score df]"
  by (simp add: select_columns_def column_ladder)

lemma perform_clustering_ladder_only:
  assumes "map ladder_score df' = map ladder_score df"
  shows "perform_clustering lib df' k (Some [''Ladder score'']) g =
         perform_clustering lib df k (Some [''Ladder score'']) g"
proof -
  have "length (map ladder_score df') = length (map ladder_score df)"
    using assms by simp
  then have len: "length df' = length df"
    by simp
  show ?thesis
    unfolding perform_clustering_def by (simp add: select_ladder assms len)
qed

lemma fit_transform_one:
  "df \<noteq> [] \<Longrightarrow>
   fit_transform (length df) [c] =
     Inr (\<lparr>mean_ = [series_mean c], scale_ = [scale_of (series_var0 c)]\<rparr>,
          [map (standardize (series_mean c) (scale_of (series_var0 c))) c])"
  by (simp add: fit_transform_def)

text \<open>
  C4, amended. When the selection of clustering features is empty (no selected key is a
  key of \<open>feature_map\<close>), the clustered view, which calls the Clustering Adapter,
  substitutes the single column \<^verbatim>\<open>'Ladder score'\<close>, and the adapter clusters on that
  one column alone: the happiness column is imputed with its mean and standardized, the
  library is handed the matrix of that one column (with the seed 42, 10 restarts and the
  cluster count), its labels become the cluster column, and the one feature is reported.
  On a table with no rows the call raises.
\<close>

theorem empty_selection_falls_back_to_ladder_score:
  assumes "List.map_filter feature_map cluster_features = []"
  shows "clustered_data lib df cluster_features k g =
     (if df = [] then (Inl ValueError, g)
      else (let col = map ladder_score df;
                filled = map (\<lambda>v. fillna v (series_mean col)) col;
                X_scaled = [map (standardize (series_mean filled)
                                   (scale_of (series_var0 filled))) filled]
            in case fst (relocate lib (RandomState lib 42) 10 k X_scaled) of
                 Inl e \<Rightarrow> (Inl e, g)
               | Inr clusters \<Rightarrow>
                   if length clusters \<noteq> length df then (Inl ValueError, g)
                   else (Inr (map2 with_cluster df clusters, X_scaled, [''Ladder score'']),
                         g)))"
proof (cases "df = []")
  case True
  then show ?thesis
    unfolding clustered_data_def Let_def assms
    by (simp add: perform_clustering_def select_ladder fit_transform_def)
next
  case False
  then show ?thesis
    unfolding clustered_data_def Let_def assms
    by (simp add: perform_clustering_def select_ladder fit_transform_one KMeans_seeded
        split: sum.splits)
qed

theorem empty_selection_falls_back_to_ladder_score_witness:
  "List.map_filter feature_map [] = [] \<and>
   (case fst (clustered_data toy_lib [finland, lebanon] [] 2 7) of
      Inl e \<Rightarrow> False
    | Inr (rows, X, fs) \<Rightarrow>
        fs = [''Ladder score''] \<and> map Cluster rows = [0, 0] \<and>
        map Cluster_Name rows = [''Very Happy'', ''Very Happy''] \<and> length X = 1)"
proof -
  have e: "List.map_filter feature_map [] = []"
    by (simp add: List.map_filter_def)
  show ?thesis
    using empty_selection_falls_back_to_ladder_score [OF e, of toy_lib "[finland, lebanon]" 2 7] e
    by (simp add: toy_lib_def Let_def with_cluster_def get_cluster_names_def names_def)
qed

text \<open>
  C4, as the claim states it, fails for the Clustering Adapter itself, which has no
  fallback to a single column: called with an empty list of features it raises, and
  called without a list it clusters on its five default columns.
\<close>

theorem adapter_has_no_single_column_fallback:
  "perform_clustering toy_lib [finland, lebanon] 2 (Some []) 7 = (Inl ValueError, 7) \<and>
   (\<exists>labels sc X. perform_clustering toy_lib [finland, lebanon] 2 None 7 =
                     (Inr (labels, sc, X), 7) \<and> length X = 5)"
  by (simp add: perform_clustering_def select_columns_def column_def default_features_def
      fit_transform_def KMeans_seeded toy_lib_def Let_def)

subsection \<open>Memoization of the views\<close>


lemma stamp_of_store [simp]: "stamp_of (store r st) = Some st"
  by (cases r) (simp_all add: store_def)

lemma outcome_of_store [simp]: "outcome_of (store r st) = Some r"
  by (cases r) (simp_all add: store_def)

lemma read_view_hit:
  "stamp_of (slot vw) = Some st \<Longrightarrow> outcome_of (slot vw) = Some r \<Longrightarrow> read_view st c vw = (r, vw)"
  by (cases "slot vw") (simp_all add: read_view_def)

lemma read_view_miss:
  "stamp_of (slot vw) \<noteq> Some st \<Longrightarrow> read_view st c vw = recompute st c vw"
  by (cases "slot vw") (simp_all add: read_view_def)

lemma stamp_read_view [simp]: "stamp_of (slot (snd (read_view st c vw))) = Some st"
  by (cases "slot vw") (simp_all add: read_view_def recompute_def)

lemma outcome_read_view [simp]:
  "outcome_of (slot (snd (read_view st c vw))) = Some (fst (read_view st c vw))"
  by (cases "slot vw") (simp_all add: read_view_def recompute_def)

lemma read_view_again:
  "read_view st c' (snd (read_view st c vw)) = read_view st c vw"
  by (simp add: read_view_hit [where r = "fst (read_view st c vw)"])

lemma computations_read_view:
  "computations (snd (read_view st c vw)) =
     (if stamp_of (slot vw) = Some st then computations vw else Suc (computations vw))"
  by (cases "slot vw") (auto simp add: read_view_def recompute_def)

lemma view_gen_read_view:
  "view_gen vw \<le> view_gen (snd (read_view st c vw))"
  by (cases "slot vw") (auto simp add: read_view_def recompute_def)

lemma sum_list_mono2: "list_all2 (\<le>) xs ys \<Longrightarrow> sum_list xs \<le> (sum_list ys :: nat)"
  by (induction rule: list_all2_induct) auto

lemma sum_list_strict: "list_all2 (\<le>) xs ys \<Longrightarrow> xs \<noteq> ys \<Longrightarrow> sum_list xs < (sum_list ys :: nat)"
proof (induction rule: list_all2_induct)
  case Nil
  then show ?case by simp
next
  case (Cons x xs y ys)
  show ?case
  proof (cases "xs = ys")
    case True
    with Cons show ?thesis by auto
  next
    case False
    with Cons show ?thesis by (auto simp: add_le_less_mono)
  qed
qed

lemma list_all2_le_refl: "list_all2 (\<le>) (xs :: nat list) xs"
  by (simp add: list_all2_same)

lemma list_all2_le_trans:
  "list_all2 (\<le>) xs ys \<Longrightarrow> list_all2 (\<le>) ys zs \<Longrightarrow> list_all2 (\<le>) xs (zs :: nat list)"
  using list_all2_trans [of "(\<le>)" "(\<le>)" "(\<le>)" xs ys zs] by auto

lemma view_ok_read:
  assumes "view_ok now vw"
  shows "view_ok now (snd (read_view now c vw))"
proof (cases "stamp_of (slot vw) = Some now")
  case True
  then obtain r where "outcome_of (slot vw) = Some r"
    by (cases "slot vw") auto
  with True assms show ?thesis
    by (simp add: read_view_hit)
next
  case False
  show ?thesis
  proof (cases "stamp_of (slot vw)")
    case None
    with assms False show ?thesis
      by (simp add: read_view_miss recompute_def view_ok_def list_all2_le_refl)
  next
    case (Some st)
    with assms have le: "list_all2 (\<le>) st now" and c: "computations vw \<le> Suc (sum_list st)"
      and g: "view_gen vw \<le> computations vw"
      by (simp_all add: view_ok_def)
    from Some False have "st \<noteq> now" by simp
    with le have "sum_list st < sum_list now" by (rule sum_list_strict)
    with c g False show ?thesis
      by (simp add: read_view_miss recompute_def view_ok_def list_all2_le_refl)
  qed
qed

lemma view_ok_mono:
  assumes "view_ok now vw" and "list_all2 (\<le>) now now'"
  shows "view_ok now' vw"
proof (cases "stamp_of (slot vw)")
  case None
  with assms show ?thesis by (simp add: view_ok_def)
next
  case (Some st)
  with assms have "list_all2 (\<le>) st now" by (simp add: view_ok_def)
  with assms(2) have "list_all2 (\<le>) st now'"
    by (rule list_all2_le_trans [rotated])
  with assms(1) Some show ?thesis by (simp add: view_ok_def)
qed

lemma view_ok_bound:
  assumes "view_ok now vw"
  shows "computations vw \<le> Suc (sum_list now)" and "view_gen vw \<le> computations vw"
proof -
  show "view_gen vw \<le> computations vw" using assms by (simp add: view_ok_def)
  show "computations vw \<le> Suc (sum_list now)"
  proof (cases "stamp_of (slot vw)")
    case None
    with assms show ?thesis by (simp add: view_ok_def)
  next
    case (Some st)
    with assms have "list_all2 (\<le>) st now" "computations vw \<le> Suc (sum_list st)"
      by (simp_all add: view_ok_def)
    then show ?thesis using sum_list_mono2 [of st now] by simp
  qed
qed

lemma sig_gen_set_signal: "sig_gen s \<le> sig_gen (set_signal v s)"
  by (simp add: set_signal_def)


lemma graph_ok_init: "graph_ok init_graph"
  by (simp add: graph_ok_def init_graph_def view_ok_def new_view_def)

lemma read_filtered_simps [simp]:
  "input_happiness_range (snd (read_filtered E gr)) = input_happiness_range gr"
  "input_gdp_range (snd (read_filtered E gr)) = input_gdp_range gr"
  "input_n_clusters (snd (read_filtered E gr)) = input_n_clusters gr"
  "input_cluster_features (snd (read_filtered E gr)) = input_cluster_features gr"
  "input_country_search (snd (read_filtered E gr)) = input_country_search gr"
  "clustered_view (snd (read_filtered E gr)) = clustered_view gr"
  "searched_view (snd (read_filtered E gr)) = searched_view gr"
  by (simp_all add: read_filtered_def case_prod_beta)

lemma filtered_view_read_filtered:
  "filtered_view (snd (read_filtered E gr)) =
     snd (read_view [sig_gen (input_happiness_range gr), sig_gen (input_gdp_range gr)]
            (Inr (filtered_data (env_data E) (sig_value (input_happiness_range gr))
                    (sig_value (input_gdp_range gr))))
            (filtered_view gr))"
  by (simp add: read_filtered_def case_prod_beta)

lemma fst_read_filtered:
  "fst (read_filtered E gr) =
     fst (read_view [sig_gen (input_happiness_range gr), sig_gen (input_gdp_range gr)]
            (Inr (filtered_data (env_data E) (sig_value (input_happiness_range gr))
                    (sig_value (input_gdp_range gr))))
            (filtered_view gr))"
  by (simp add: read_filtered_def case_prod_beta)

lemma read_searched_simps [simp]:
  "input_happiness_range (snd (read_searched E gr)) = input_happiness_range gr"
  "input_gdp_range (snd (read_searched E gr)) = input_gdp_range gr"
  "input_n_clusters (snd (read_searched E gr)) = input_n_clusters gr"
  "input_cluster_features (snd (read_searched E gr)) = input_cluster_features gr"
  "input_country_search (snd (read_searched E gr)) = input_country_search gr"
  "clustered_view (snd (read_searched E gr)) = clustered_view gr"
  "filtered_view (snd (read_searched E gr)) = filtered_view gr"
  by (simp_all add: read_searched_def case_prod_beta)

lemma searched_view_read_searched:
  "searched_view (snd (read_searched E gr)) =
     snd (read_view [sig_gen (input_country_search gr)]
            (searched_data (env_engine E) (env_data E) (sig_value (input_country_search gr)))
            (searched_view gr))"
  by (simp add: read_searched_def case_prod_beta)

lemma fst_read_searched:
  "fst (read_searched E gr) =
     fst (read_view [sig_gen (input_country_search gr)]
            (searched_data (env_engine E) (env_data E) (sig_value (input_country_search gr)))
            (searched_view gr))"
  by (simp add: read_searched_def case_prod_beta)

lemma read_clustered_simps [simp]:
  "input_happiness_range (snd (read_clustered E gr)) = input_happiness_range gr"
  "input_gdp_range (snd (read_clustered E gr)) = input_gdp_range gr"
  "input_n_clusters (snd (read_clustered E gr)) = input_n_clusters gr"
  "input_cluster_features (snd (read_clustered E gr)) = input_cluster_features gr"
  "input_country_search (snd (read_clustered E gr)) = input_country_search gr"
  "searched_view (snd (read_clustered E gr)) = searched_view gr"
  "filtered_view (snd (read_clustered E gr)) = filtered_view (snd (read_filtered E gr))"
  by (simp_all add: read_clustered_def case_prod_beta)

lemma clustered_view_read_clustered:
  "clustered_view (snd (read_clustered E gr)) =
     snd (read_view [view_gen (filtered_view (snd (read_filtered E gr))),
                     sig_gen (input_cluster_features gr), sig_gen (input_n_clusters gr)]
            (clustered_result E gr) (clustered_view gr))"
  by (simp add: read_clustered_def clustered_result_def case_prod_beta cong: sum.case_cong)

lemma fst_read_clustered:
  "fst (read_clustered E gr) =
     fst (read_view [view_gen (filtered_view (snd (read_filtered E gr))),
                     sig_gen (input_cluster_features gr), sig_gen (input_n_clusters gr)]
            (clustered_result E gr) (clustered_view gr))"
  by (simp add: read_clustered_def clustered_result_def case_prod_beta cong: sum.case_cong)

lemma graph_eqI:
  "input_happiness_range a = input_happiness_range b \<Longrightarrow> input_gdp_range a = input_gdp_range b \<Longrightarrow>
   input_n_clusters a = input_n_clusters b \<Longrightarrow> input_cluster_features a = input_cluster_features b \<Longrightarrow>
   input_country_search a = input_country_search b \<Longrightarrow> filtered_view a = filtered_view b \<Longrightarrow>
   clustered_view a = clustered_view b \<Longrightarrow> searched_view a = searched_view b \<Longrightarrow>
   a = (b :: graph)"
  by simp

lemma read_filtered_again:
  "read_filtered E (snd (read_filtered E gr)) = read_filtered E gr"
proof (rule prod_eqI)
  show "fst (read_filtered E (snd (read_filtered E gr))) = fst (read_filtered E gr)"
    by (simp add: fst_read_filtered filtered_view_read_filtered read_view_again)
  show "snd (read_filtered E (snd (read_filtered E gr))) = snd (read_filtered E gr)"
    by (rule graph_eqI) (simp_all add: filtered_view_read_filtered read_view_again)
qed

lemma read_searched_again:
  "read_searched E (snd (read_searched E gr)) = read_searched E gr"
proof (rule prod_eqI)
  show "fst (read_searched E (snd (read_searched E gr))) = fst (read_searched E gr)"
    by (simp add: fst_read_searched searched_view_read_searched read_view_again)
  show "snd (read_searched E (snd (read_searched E gr))) = snd (read_searched E gr)"
    by (rule graph_eqI) (simp_all add: searched_view_read_searched read_view_again)
qed

lemma read_filtered_after_clustered:
  "fst (read_filtered E (snd (read_clustered E gr))) = fst (read_filtered E gr)"
  "snd (read_filtered E (snd (read_clustered E gr))) = snd (read_clustered E gr)"
proof -
  show "fst (read_filtered E (snd (read_clustered E gr))) = fst (read_filtered E gr)"
    by (simp add: fst_read_filtered filtered_view_read_filtered read_view_again)
  show "snd (read_filtered E (snd (read_clustered E gr))) = snd (read_clustered E gr)"
    by (rule graph_eqI) (simp_all add: filtered_view_read_filtered read_view_again)
qed

lemma read_clustered_again:
  "read_clustered E (snd (read_clustered E gr)) = read_clustered E gr"
proof -
  let ?g2 = "snd (read_clustered E gr)"
  have res: "clustered_result E ?g2 = clustered_result E gr"
    by (simp add: clustered_result_def read_filtered_after_clustered cong: sum.case_cong)
  have fv: "filtered_view (snd (read_filtered E ?g2)) = filtered_view (snd (read_filtered E gr))"
    by (simp add: read_filtered_after_clustered)
  show ?thesis
  proof (rule prod_eqI)
    show "fst (read_clustered E ?g2) = fst (read_clustered E gr)"
      unfolding fst_read_clustered [of E ?g2] res fv
      by (simp add: clustered_view_read_clustered read_view_again fst_read_clustered)
    show "snd (read_clustered E ?g2) = snd (read_clustered E gr)"
    proof (rule graph_eqI)
      show "clustered_view (snd (read_clustered E ?g2)) = clustered_view ?g2"
        unfolding clustered_view_read_clustered [of E ?g2] res fv
        by (simp add: clustered_view_read_clustered read_view_again)
      show "filtered_view (snd (read_clustered E ?g2)) = filtered_view ?g2"
        by (simp add: read_filtered_after_clustered)
    qed simp_all
  qed
qed


lemma graph_ok_read_filtered:
  assumes "graph_ok gr"
  shows "graph_ok (snd (read_filtered E gr))"
proof -
  have f: "view_ok [sig_gen (input_happiness_range gr), sig_gen (input_gdp_range gr)]
      (filtered_view (snd (read_filtered E gr)))"
    unfolding filtered_view_read_filtered
    using assms by (intro view_ok_read) (simp add: graph_ok_def)
  have "view_gen (filtered_view gr) \<le> view_gen (filtered_view (snd (read_filtered E gr)))"
    unfolding filtered_view_read_filtered by (rule view_gen_read_view)
  then have c: "view_ok [view_gen (filtered_view (snd (read_filtered E gr))),
      sig_gen (input_cluster_features gr), sig_gen (input_n_clusters gr)] (clustered_view gr)"
    using assms by (auto simp: graph_ok_def elim!: view_ok_mono)
  from f c assms show ?thesis
    by (simp add: graph_ok_def)
qed

lemma graph_ok_step: "graph_ok gr \<Longrightarrow> graph_ok (step E e gr)"
proof (cases e)
  case (Set_happiness_range v)
  assume ok: "graph_ok gr"
  then have "view_ok [sig_gen (set_signal v (input_happiness_range gr)), sig_gen (input_gdp_range gr)]
      (filtered_view gr)"
    by (auto simp: graph_ok_def sig_gen_set_signal elim!: view_ok_mono)
  with ok show ?thesis
    by (simp add: Set_happiness_range graph_ok_def)
next
  case (Set_gdp_range v)
  assume ok: "graph_ok gr"
  then have "view_ok [sig_gen (input_happiness_range gr), sig_gen (set_signal v (input_gdp_range gr))]
      (filtered_view gr)"
    by (auto simp: graph_ok_def sig_gen_set_signal elim!: view_ok_mono)
  with ok show ?thesis
    by (simp add: Set_gdp_range graph_ok_def)
next
  case (Set_n_clusters v)
  assume ok: "graph_ok gr"
  then have "view_ok [view_gen (filtered_view gr), sig_gen (input_cluster_features gr),
      sig_gen (set_signal v (input_n_clusters gr))] (clustered_view gr)"
    by (auto simp: graph_ok_def sig_gen_set_signal elim!: view_ok_mono)
  with ok show ?thesis
    by (simp add: Set_n_clusters graph_ok_def)
next
  case (Set_cluster_features v)
  assume ok: "graph_ok gr"
  then have "view_ok [view_gen (filtered_view gr), sig_gen (set_signal v (input_cluster_features gr)),
      sig_gen (input_n_clusters gr)] (clustered_view gr)"
    by (auto simp: graph_ok_def sig_gen_set_signal elim!: view_ok_mono)
  with ok show ?thesis
    by (simp add: Set_cluster_features graph_ok_def)
next
  case (Set_country_search v)
  assume ok: "graph_ok gr"
  then have "view_ok [sig_gen (set_signal v (input_country_search gr))] (searched_view gr)"
    by (auto simp: graph_ok_def sig_gen_set_signal elim!: view_ok_mono)
  with ok show ?thesis
    by (simp add: Set_country_search graph_ok_def)
next
  case Read_filtered
  assume ok: "graph_ok gr"
  show ?thesis
    unfolding Read_filtered step.simps by (rule graph_ok_read_filtered [OF ok])
next
  case Read_clustered
  assume ok: "graph_ok gr"
  have ok1: "graph_ok (snd (read_filtered E gr))"
    by (rule graph_ok_read_filtered [OF ok])
  then have "view_ok [view_gen (filtered_view (snd (read_filtered E gr))),
                      sig_gen (input_cluster_features gr), sig_gen (input_n_clusters gr)]
       (clustered_view (snd (read_clustered E gr)))"
    unfolding clustered_view_read_clustered
    by (intro view_ok_read) (simp add: graph_ok_def)
  with ok1 show ?thesis
    by (simp add: Read_clustered graph_ok_def)
next
  case Read_searched
  assume ok: "graph_ok gr"
  then have "view_ok [sig_gen (input_country_search gr)] (searched_view (snd (read_searched E gr)))"
    unfolding searched_view_read_searched
    by (intro view_ok_read) (simp add: graph_ok_def)
  with ok show ?thesis
    by (simp add: Read_searched graph_ok_def)
qed

lemma graph_ok_run: "graph_ok gr \<Longrightarrow> graph_ok (run E events gr)"
  unfolding run_def by (induction events arbitrary: gr) (simp_all add: graph_ok_step)


lemma computations_recomputed:
  "slot vw = Stale \<Longrightarrow> computations (snd (read_view st c vw)) = Suc (computations vw)"
  by (simp add: computations_read_view)

lemma computations_read_le:
  "computations (snd (read_view st c vw)) \<le> Suc (computations vw)"
  by (simp add: computations_read_view)

lemma read_filtered_eq:
  "read_filtered E gr =
     (fst (read_view (filtered_stamps gr) (filtered_now E gr) (filtered_view gr)),
      gr\<lparr>filtered_view := snd (read_view (filtered_stamps gr) (filtered_now E gr) (filtered_view gr))\<rparr>)"
  by (simp add: read_filtered_def filtered_stamps_def filtered_now_def case_prod_beta)

lemma read_searched_eq:
  "read_searched E gr =
     (fst (read_view (searched_stamps gr) (searched_now E gr) (searched_view gr)),
      gr\<lparr>searched_view := snd (read_view (searched_stamps gr) (searched_now E gr) (searched_view gr))\<rparr>)"
  by (simp add: read_searched_def searched_stamps_def searched_now_def case_prod_beta)

lemma clustered_result_from:
  "clustered_result E gr = clustered_from E gr (fst (read_filtered E gr))"
  by (simp add: clustered_result_def clustered_from_def)

lemma read_clustered_eq:
  "read_clustered E gr =
     (fst (read_view (clustered_stamps (snd (read_filtered E gr)))
             (clustered_from E gr (fst (read_filtered E gr))) (clustered_view gr)),
      (snd (read_filtered E gr))\<lparr>clustered_view :=
         snd (read_view (clustered_stamps (snd (read_filtered E gr)))
                (clustered_from E gr (fst (read_filtered E gr))) (clustered_view gr))\<rparr>)"
  by (simp add: read_clustered_def clustered_stamps_def clustered_from_def case_prod_beta
      cong: sum.case_cong)

lemma fresh_read_view [simp]: "fresh st (snd (read_view st c vw))"
  by (simp add: fresh_def)

lemma read_view_fresh:
  "fresh st vw \<Longrightarrow> snd (read_view st c vw) = vw"
  by (cases "slot vw") (simp_all add: fresh_def read_view_def)

lemma fst_read_view_fresh:
  "fresh st vw \<Longrightarrow> Some (fst (read_view st c vw)) = outcome_of (slot vw)"
  by (cases "slot vw") (simp_all add: fresh_def read_view_def)

lemma fst_read_view_stale:
  "\<not> fresh st vw \<Longrightarrow> fst (read_view st c vw) = c"
  by (cases "slot vw") (simp_all add: fresh_def read_view_def recompute_def)

lemma computations_read_view_fresh:
  "computations (snd (read_view st c vw)) =
     (if fresh st vw then computations vw else Suc (computations vw))"
  by (simp add: computations_read_view fresh_def)

lemma view_gen_same_outcome:
  "view_gen (snd (read_view st c vw)) = view_gen vw \<Longrightarrow>
     outcome_of (slot (snd (read_view st c vw))) = outcome_of (slot vw)"
  by (cases "slot vw") (auto simp add: read_view_def recompute_def split: if_splits)


lemma list_all2_le_antisym:
  "list_all2 (\<le>) xs ys \<Longrightarrow> list_all2 (\<le>) ys xs \<Longrightarrow> xs = (ys :: nat list)"
  using list_all2_antisym [of "(\<le>)" "(\<le>)" xs ys] by auto

lemma stale_after_change:
  assumes "view_ok now vw" and "list_all2 (\<le>) now now'" and "now \<noteq> now'"
  shows "\<not> fresh now' vw"
proof
  assume "fresh now' vw"
  then have "stamp_of (slot vw) = Some now'"
    by (simp add: fresh_def)
  with assms(1) have "list_all2 (\<le>) now' now"
    by (simp add: view_ok_def)
  with assms(2) have "now = now'"
    by (rule list_all2_le_antisym)
  with assms(3) show False ..
qed

lemma set_signal_same: "v = sig_value s \<Longrightarrow> set_signal v s = s"
  by (simp add: set_signal_def)

lemma set_signal_changed: "v \<noteq> sig_value s \<Longrightarrow> sig_gen (set_signal v s) = Suc (sig_gen s)"
  by (simp add: set_signal_def)

lemma step_no_change:
  "\<not> changes e gr \<Longrightarrow> e \<notin> {Read_filtered, Read_clustered, Read_searched} \<Longrightarrow> step E e gr = gr"
  by (cases e) (simp_all add: set_signal_same)

lemma graph_ok_filtered: "graph_ok gr \<Longrightarrow> view_ok (filtered_stamps gr) (filtered_view gr)"
  and graph_ok_searched: "graph_ok gr \<Longrightarrow> view_ok (searched_stamps gr) (searched_view gr)"
  and graph_ok_clustered: "graph_ok gr \<Longrightarrow> view_ok (clustered_stamps gr) (clustered_view gr)"
  by (simp_all add: graph_ok_def filtered_stamps_def searched_stamps_def clustered_stamps_def)

lemma changed_not_fresh_filtered:
  assumes "graph_ok gr" and "changes e gr" and "feeds_filtered e"
  shows "\<not> fresh_filtered (step E e gr)"
proof -
  have "list_all2 (\<le>) (filtered_stamps gr) (filtered_stamps (step E e gr)) \<and>
        filtered_stamps gr \<noteq> filtered_stamps (step E e gr) \<and>
        filtered_view (step E e gr) = filtered_view gr"
    using assms(2,3) by (cases e) (simp_all add: filtered_stamps_def set_signal_changed)
  then show ?thesis
    unfolding fresh_filtered_def
    using stale_after_change [OF graph_ok_filtered [OF assms(1)]] by simp
qed

lemma changed_not_fresh_searched:
  assumes "graph_ok gr" and "changes e gr" and "feeds_searched e"
  shows "\<not> fresh_searched (step E e gr)"
proof -
  have "list_all2 (\<le>) (searched_stamps gr) (searched_stamps (step E e gr)) \<and>
        searched_stamps gr \<noteq> searched_stamps (step E e gr) \<and>
        searched_view (step E e gr) = searched_view gr"
    using assms(2,3) by (cases e) (simp_all add: searched_stamps_def set_signal_changed)
  then show ?thesis
    unfolding fresh_searched_def
    using stale_after_change [OF graph_ok_searched [OF assms(1)]] by simp
qed

lemma changed_not_fresh_clustered_now:
  assumes "graph_ok gr" and "changes e gr" and "feeds_clustered e"
  shows "\<not> fresh (clustered_stamps (step E e gr)) (clustered_view (step E e gr))"
proof -
  have "list_all2 (\<le>) (clustered_stamps gr) (clustered_stamps (step E e gr)) \<and>
        clustered_stamps gr \<noteq> clustered_stamps (step E e gr) \<and>
        clustered_view (step E e gr) = clustered_view gr"
    using assms(2,3) by (cases e) (simp_all add: clustered_stamps_def set_signal_changed)
  then show ?thesis
    using stale_after_change [OF graph_ok_clustered [OF assms(1)]] by simp
qed

lemma clustered_stamps_read_filtered:
  "list_all2 (\<le>) (clustered_stamps gr) (clustered_stamps (snd (read_filtered E gr)))"
  by (simp add: clustered_stamps_def filtered_view_read_filtered view_gen_read_view)

lemma not_fresh_clustered:
  assumes "graph_ok gr" and "\<not> fresh (clustered_stamps gr) (clustered_view gr)"
  shows "\<not> fresh_clustered E gr"
proof (cases "clustered_stamps (snd (read_filtered E gr)) = clustered_stamps gr")
  case True
  with assms(2) show ?thesis
    by (simp add: fresh_clustered_def)
next
  case False
  then show ?thesis
    unfolding fresh_clustered_def Let_def
    using stale_after_change [OF graph_ok_clustered [OF assms(1)]
        clustered_stamps_read_filtered [of gr E]]
    by simp
qed

lemma changed_not_fresh_clustered:
  assumes "graph_ok gr" and "changes e gr" and "feeds_clustered e"
  shows "\<not> fresh_clustered E (step E e gr)"
  by (rule not_fresh_clustered [OF graph_ok_step [OF assms(1)]
        changed_not_fresh_clustered_now [OF assms]])

lemma filtered_change_not_fresh_clustered:
  assumes "graph_ok gr"
    and "view_gen (filtered_view (snd (read_filtered E gr))) \<noteq> view_gen (filtered_view gr)"
  shows "\<not> fresh_clustered E gr"
proof -
  have "clustered_stamps gr \<noteq> clustered_stamps (snd (read_filtered E gr))"
    using assms(2) by (simp add: clustered_stamps_def)
  then show ?thesis
    unfolding fresh_clustered_def Let_def
    using stale_after_change [OF graph_ok_clustered [OF assms(1)]
        clustered_stamps_read_filtered [of gr E]]
    by simp
qed


lemma filtered_now_cong:
  "input_happiness_range gr' = input_happiness_range gr \<Longrightarrow>
   input_gdp_range gr' = input_gdp_range gr \<Longrightarrow> filtered_now E gr' = filtered_now E gr"
  by (simp add: filtered_now_def)

lemma searched_now_cong:
  "input_country_search gr' = input_country_search gr \<Longrightarrow> searched_now E gr' = searched_now E gr"
  by (simp add: searched_now_def)

lemma clustered_from_cong:
  "input_cluster_features gr' = input_cluster_features gr \<Longrightarrow>
   input_n_clusters gr' = input_n_clusters gr \<Longrightarrow> clustered_from E gr' = clustered_from E gr"
  by (simp add: clustered_from_def fun_eq_iff cong: sum.case_cong)

lemma coherent_init: "coherent E init_graph"
  by (simp add: coherent_def fresh_filtered_def fresh_searched_def fresh_def init_graph_def
      new_view_def)

lemma read_filtered_now:
  assumes "coherent E gr"
  shows "fst (read_filtered E gr) = filtered_now E gr"
proof (cases "fresh_filtered gr")
  case True
  then have "Some (fst (read_filtered E gr)) = outcome_of (slot (filtered_view gr))"
    by (simp add: read_filtered_eq fresh_filtered_def fst_read_view_fresh)
  with True assms show ?thesis
    by (simp add: coherent_def)
next
  case False
  then show ?thesis
    by (simp add: read_filtered_eq fresh_filtered_def fst_read_view_stale)
qed

lemma read_searched_now:
  assumes "coherent E gr"
  shows "fst (read_searched E gr) = searched_now E gr"
proof (cases "fresh_searched gr")
  case True
  then have "Some (fst (read_searched E gr)) = outcome_of (slot (searched_view gr))"
    by (simp add: read_searched_eq fresh_searched_def fst_read_view_fresh)
  with True assms show ?thesis
    by (simp add: coherent_def)
next
  case False
  then show ?thesis
    by (simp add: read_searched_eq fresh_searched_def fst_read_view_stale)
qed

lemma coherent_read_filtered:
  assumes "graph_ok gr" and "coherent E gr"
  shows "coherent E (snd (read_filtered E gr))"
proof -
  let ?g1 = "snd (read_filtered E gr)"
  have now: "filtered_now E ?g1 = filtered_now E gr" "searched_now E ?g1 = searched_now E gr"
    "clustered_from E ?g1 = clustered_from E gr"
    by (rule filtered_now_cong searched_now_cong clustered_from_cong; simp)+
  have f: "outcome_of (slot (filtered_view ?g1)) = Some (filtered_now E ?g1)"
    using read_filtered_now [OF assms(2)]
    by (simp add: now filtered_view_read_filtered fst_read_filtered)
  have s: "fresh_searched ?g1 \<longrightarrow>
      outcome_of (slot (searched_view ?g1)) = Some (searched_now E ?g1)"
    using assms(2) by (simp add: now coherent_def fresh_searched_def searched_stamps_def)
  have c: "fresh (clustered_stamps ?g1) (clustered_view ?g1) \<longrightarrow>
         (\<exists>f. outcome_of (slot (filtered_view ?g1)) = Some f \<and>
              outcome_of (slot (clustered_view ?g1)) = Some (clustered_from E ?g1 f))"
  proof (cases "view_gen (filtered_view ?g1) = view_gen (filtered_view gr)")
    case True
    then have st: "clustered_stamps ?g1 = clustered_stamps gr"
      by (simp add: clustered_stamps_def)
    from True have "outcome_of (slot (filtered_view ?g1)) = outcome_of (slot (filtered_view gr))"
      unfolding filtered_view_read_filtered by (rule view_gen_same_outcome)
    with assms(2) show ?thesis
      by (simp add: st now coherent_def)
  next
    case False
    then have "clustered_stamps gr \<noteq> clustered_stamps ?g1"
      by (simp add: clustered_stamps_def)
    then have "\<not> fresh (clustered_stamps ?g1) (clustered_view gr)"
      using stale_after_change [OF graph_ok_clustered [OF assms(1)]
          clustered_stamps_read_filtered [of gr E]]
      by simp
    then show ?thesis by simp
  qed
  from f s c show ?thesis
    by (simp add: coherent_def)
qed

lemma coherent_read_searched:
  assumes "coherent E gr"
  shows "coherent E (snd (read_searched E gr))"
proof -
  let ?g1 = "snd (read_searched E gr)"
  have now: "filtered_now E ?g1 = filtered_now E gr" "searched_now E ?g1 = searched_now E gr"
    "clustered_from E ?g1 = clustered_from E gr"
    by (rule filtered_now_cong searched_now_cong clustered_from_cong; simp)+
  have s: "outcome_of (slot (searched_view ?g1)) = Some (searched_now E ?g1)"
    using read_searched_now [OF assms]
    by (simp add: now searched_view_read_searched fst_read_searched)
  show ?thesis
    using assms s
    by (simp add: now coherent_def fresh_filtered_def filtered_stamps_def clustered_stamps_def)
qed

lemma coherent_read_clustered:
  assumes "graph_ok gr" and "coherent E gr"
  shows "coherent E (snd (read_clustered E gr))"
proof -
  let ?g1 = "snd (read_filtered E gr)"
  let ?g2 = "snd (read_clustered E gr)"
  let ?c = "clustered_from E gr (fst (read_filtered E gr))"
  have c1: "coherent E ?g1"
    by (rule coherent_read_filtered [OF assms])
  have now: "filtered_now E ?g2 = filtered_now E ?g1" "searched_now E ?g2 = searched_now E ?g1"
    "clustered_from E ?g2 = clustered_from E gr" "clustered_from E ?g1 = clustered_from E gr"
    by (rule filtered_now_cong searched_now_cong clustered_from_cong; simp)+
  have cv: "clustered_view ?g2 = snd (read_view (clustered_stamps ?g1) ?c (clustered_view gr))"
    by (simp add: read_clustered_eq)
  have fo: "outcome_of (slot (filtered_view ?g1)) = Some (fst (read_filtered E gr))"
    by (simp add: filtered_view_read_filtered fst_read_filtered)
  have "\<exists>f. outcome_of (slot (filtered_view ?g1)) = Some f \<and>
            fst (read_view (clustered_stamps ?g1) ?c (clustered_view gr)) = clustered_from E gr f"
  proof (cases "fresh (clustered_stamps ?g1) (clustered_view gr)")
    case True
    then have "Some (fst (read_view (clustered_stamps ?g1) ?c (clustered_view gr))) =
        outcome_of (slot (clustered_view gr))"
      by (rule fst_read_view_fresh)
    with True c1 show ?thesis
      by (auto simp add: coherent_def now)
  next
    case False
    then show ?thesis
      using fo by (simp add: fst_read_view_stale)
  qed
  then have c: "\<exists>f. outcome_of (slot (filtered_view ?g2)) = Some f \<and>
            outcome_of (slot (clustered_view ?g2)) = Some (clustered_from E ?g2 f)"
    by (simp add: cv now)
  show ?thesis
    using c1 c
    by (simp add: now coherent_def fresh_filtered_def filtered_stamps_def fresh_searched_def
        searched_stamps_def)
qed

lemma coherent_set:
  assumes "graph_ok gr" and "coherent E gr"
    and "e \<notin> {Read_filtered, Read_clustered, Read_searched}"
  shows "coherent E (step E e gr)"
proof (cases "changes e gr")
  case False
  then show ?thesis
    using assms by (simp add: step_no_change)
next
  case True
  let ?g = "step E e gr"
  have views: "filtered_view ?g = filtered_view gr" "clustered_view ?g = clustered_view gr"
    "searched_view ?g = searched_view gr"
    using assms(3) by (cases e; simp)+
  show ?thesis
  proof (cases "feeds_filtered e")
    case ff: True
    have nf: "\<not> fresh_filtered ?g"
      by (rule changed_not_fresh_filtered [OF assms(1) True ff])
    have sig: "input_country_search ?g = input_country_search gr"
      "input_cluster_features ?g = input_cluster_features gr"
      "input_n_clusters ?g = input_n_clusters gr"
      using ff by (cases e; simp)+
    have same: "searched_stamps ?g = searched_stamps gr" "clustered_stamps ?g = clustered_stamps gr"
      "searched_now E ?g = searched_now E gr" "clustered_from E ?g = clustered_from E gr"
      using sig views
      by (simp_all add: searched_stamps_def clustered_stamps_def searched_now_def
          clustered_from_cong [of ?g gr])
    show ?thesis
      using assms(2) nf by (simp add: coherent_def fresh_searched_def views same)
  next
    case nff: False
    show ?thesis
    proof (cases "feeds_searched e")
      case fs: True
      have nf: "\<not> fresh_searched ?g"
        by (rule changed_not_fresh_searched [OF assms(1) True fs])
      have sig: "input_happiness_range ?g = input_happiness_range gr"
        "input_gdp_range ?g = input_gdp_range gr"
        "input_cluster_features ?g = input_cluster_features gr"
        "input_n_clusters ?g = input_n_clusters gr"
        using fs by (cases e; simp)+
      have same: "filtered_stamps ?g = filtered_stamps gr"
        "clustered_stamps ?g = clustered_stamps gr"
        "filtered_now E ?g = filtered_now E gr" "clustered_from E ?g = clustered_from E gr"
        using sig views
        by (simp_all add: filtered_stamps_def clustered_stamps_def filtered_now_def
            clustered_from_cong [of ?g gr])
      show ?thesis
        using assms(2) nf by (simp add: coherent_def fresh_filtered_def views same)
    next
      case nfs: False
      from nff nfs assms(3) have fc: "feeds_clustered e"
        by (cases e) simp_all
      have nf: "\<not> fresh (clustered_stamps ?g) (clustered_view ?g)"
        by (rule changed_not_fresh_clustered_now [OF assms(1) True fc])
      have sig: "input_happiness_range ?g = input_happiness_range gr"
        "input_gdp_range ?g = input_gdp_range gr"
        "input_country_search ?g = input_country_search gr"
        using fc by (cases e; simp)+
      have same: "filtered_stamps ?g = filtered_stamps gr"
        "searched_stamps ?g = searched_stamps gr"
        "filtered_now E ?g = filtered_now E gr" "searched_now E ?g = searched_now E gr"
        using sig
        by (simp_all add: filtered_stamps_def searched_stamps_def filtered_now_def
            searched_now_def)
      show ?thesis
        using assms(2) nf
        by (simp add: coherent_def fresh_filtered_def fresh_searched_def views same)
    qed
  qed
qed

lemma coherent_step:
  assumes "graph_ok gr" and "coherent E gr"
  shows "coherent E (step E e gr)"
proof (cases "e \<in> {Read_filtered, Read_clustered, Read_searched}")
  case True
  then show ?thesis
    using coherent_read_filtered [OF assms] coherent_read_clustered [OF assms]
      coherent_read_searched [OF assms(2)]
    by auto
next
  case False
  then show ?thesis
    by (rule coherent_set [OF assms])
qed

lemma reachable_ok:
  "graph_ok gr \<and> coherent E gr \<Longrightarrow>
     graph_ok (run E events gr) \<and> coherent E (run E events gr)"
  unfolding run_def
  by (induction events arbitrary: gr) (simp_all add: graph_ok_step coherent_step)

lemma read_clustered_now:
  assumes "graph_ok gr" and "coherent E gr"
  shows "fst (read_clustered E gr) = clustered_now E gr"
proof -
  let ?g1 = "snd (read_filtered E gr)"
  let ?c = "clustered_from E gr (fst (read_filtered E gr))"
  have c1: "coherent E ?g1"
    by (rule coherent_read_filtered [OF assms])
  have f: "fst (read_filtered E gr) = filtered_now E gr"
    by (rule read_filtered_now [OF assms(2)])
  have fo: "outcome_of (slot (filtered_view ?g1)) = Some (filtered_now E gr)"
    by (simp add: filtered_view_read_filtered fst_read_filtered [symmetric] f)
  have now: "clustered_from E ?g1 = clustered_from E gr"
    by (rule clustered_from_cong; simp)
  show ?thesis
  proof (cases "fresh (clustered_stamps ?g1) (clustered_view gr)")
    case True
    then have "Some (fst (read_view (clustered_stamps ?g1) ?c (clustered_view gr))) =
        outcome_of (slot (clustered_view gr))"
      by (rule fst_read_view_fresh)
    with True c1 fo show ?thesis
      by (auto simp add: coherent_def now read_clustered_eq clustered_now_def)
  next
    case False
    then show ?thesis
      by (simp add: read_clustered_eq fst_read_view_stale f clustered_now_def)
  qed
qed


lemma memoized_filtered: "memoized (read_filtered E) filtered_view fresh_filtered gr"
proof -
  have "fresh_filtered (snd (read_filtered E gr))"
    by (simp add: fresh_filtered_def filtered_stamps_def filtered_view_read_filtered)
  moreover have "computations (filtered_view (snd (read_filtered E gr))) =
      (if fresh_filtered gr then computations (filtered_view gr)
       else Suc (computations (filtered_view gr)))"
    by (simp add: read_filtered_eq computations_read_view_fresh fresh_filtered_def)
  ultimately show ?thesis
    unfolding memoized_def case_prod_beta read_filtered_again by simp
qed

lemma memoized_searched: "memoized (read_searched E) searched_view fresh_searched gr"
proof -
  have "fresh_searched (snd (read_searched E gr))"
    by (simp add: fresh_searched_def searched_stamps_def searched_view_read_searched)
  moreover have "computations (searched_view (snd (read_searched E gr))) =
      (if fresh_searched gr then computations (searched_view gr)
       else Suc (computations (searched_view gr)))"
    by (simp add: read_searched_eq computations_read_view_fresh fresh_searched_def)
  ultimately show ?thesis
    unfolding memoized_def case_prod_beta read_searched_again by simp
qed

lemma memoized_clustered:
  "memoized (read_clustered E) clustered_view (fresh_clustered E) gr"
proof -
  let ?g1 = "snd (read_filtered E gr)"
  let ?g2 = "snd (read_clustered E gr)"
  have st: "clustered_stamps ?g2 = clustered_stamps ?g1"
    by (simp add: clustered_stamps_def)
  have "fresh (clustered_stamps ?g2) (clustered_view ?g2)"
    unfolding st by (simp add: read_clustered_eq)
  then have "fresh_clustered E ?g2"
    by (simp add: fresh_clustered_def read_filtered_after_clustered)
  moreover have "computations (clustered_view ?g2) =
      (if fresh_clustered E gr then computations (clustered_view gr)
       else Suc (computations (clustered_view gr)))"
    by (simp add: read_clustered_eq computations_read_view_fresh fresh_clustered_def)
  ultimately show ?thesis
    unfolding memoized_def case_prod_beta read_clustered_again by simp
qed

lemma recomputes_filtered:
  "recomputes (read_filtered E) filtered_view gr \<longleftrightarrow> \<not> fresh_filtered gr"
  by (simp add: recomputes_def read_filtered_eq computations_read_view_fresh fresh_filtered_def)

lemma recomputes_searched:
  "recomputes (read_searched E) searched_view gr \<longleftrightarrow> \<not> fresh_searched gr"
  by (simp add: recomputes_def read_searched_eq computations_read_view_fresh fresh_searched_def)

lemma recomputes_clustered:
  "recomputes (read_clustered E) clustered_view gr \<longleftrightarrow> \<not> fresh_clustered E gr"
  by (simp add: recomputes_def read_clustered_eq computations_read_view_fresh
      fresh_clustered_def)

text \<open>
  C1, amended. In every graph that a session reaches, for each of the three views:
  reading the view twice with no change to its upstream inputs in between returns the
  cached value on the second read and performs the computation exactly once when the
  view was out of date (never computed, or an upstream value changed since) and not at
  all when it was fresh; a read returns what the view's function gives at the present
  values of the inputs; every change of the value of an input the view reads makes the
  next read recompute, whether or not the new combination of values was computed
  before, and so does a change of the filtered view's value for the clustered view; and
  no view has computed more often than once for its first read and once per change of
  generation upstream.
\<close>

theorem views_are_memoized:
  assumes "gr = run E events init_graph"
  shows "memoized (read_filtered E) filtered_view fresh_filtered gr \<and>
         memoized (read_clustered E) clustered_view (fresh_clustered E) gr \<and>
         memoized (read_searched E) searched_view fresh_searched gr \<and>
         fst (read_filtered E gr) = filtered_now E gr \<and>
         fst (read_clustered E gr) = clustered_now E gr \<and>
         fst (read_searched E gr) = searched_now E gr \<and>
         (\<forall>e. changes e gr \<longrightarrow>
            (feeds_filtered e \<longrightarrow>
               recomputes (read_filtered E) filtered_view (step E e gr)) \<and>
            (feeds_clustered e \<longrightarrow>
               recomputes (read_clustered E) clustered_view (step E e gr)) \<and>
            (feeds_searched e \<longrightarrow>
               recomputes (read_searched E) searched_view (step E e gr))) \<and>
         (view_gen (filtered_view (snd (read_filtered E gr))) \<noteq> view_gen (filtered_view gr) \<longrightarrow>
            recomputes (read_clustered E) clustered_view gr) \<and>
         computations (filtered_view gr) \<le>
           Suc (sig_gen (input_happiness_range gr) + sig_gen (input_gdp_range gr)) \<and>
         computations (clustered_view gr) \<le>
           Suc (view_gen (filtered_view gr) + sig_gen (input_cluster_features gr) +
                sig_gen (input_n_clusters gr)) \<and>
         view_gen (filtered_view gr) \<le> computations (filtered_view gr) \<and>
         computations (searched_view gr) \<le> Suc (sig_gen (input_country_search gr))"
proof -
  have "graph_ok gr \<and> coherent E gr"
    unfolding assms by (rule reachable_ok) (simp add: graph_ok_init coherent_init)
  then have ok: "graph_ok gr" and co: "coherent E gr"
    by simp_all
  have m: "memoized (read_filtered E) filtered_view fresh_filtered gr \<and>
         memoized (read_clustered E) clustered_view (fresh_clustered E) gr \<and>
         memoized (read_searched E) searched_view fresh_searched gr"
    by (simp add: memoized_filtered memoized_clustered memoized_searched)
  have r: "fst (read_filtered E gr) = filtered_now E gr \<and>
         fst (read_clustered E gr) = clustered_now E gr \<and>
         fst (read_searched E gr) = searched_now E gr"
    by (simp add: read_filtered_now [OF co] read_clustered_now [OF ok co]
        read_searched_now [OF co])
  have i: "\<forall>e. changes e gr \<longrightarrow>
            (feeds_filtered e \<longrightarrow>
               recomputes (read_filtered E) filtered_view (step E e gr)) \<and>
            (feeds_clustered e \<longrightarrow>
               recomputes (read_clustered E) clustered_view (step E e gr)) \<and>
            (feeds_searched e \<longrightarrow>
               recomputes (read_searched E) searched_view (step E e gr))"
    using changed_not_fresh_filtered [OF ok] changed_not_fresh_clustered [OF ok]
      changed_not_fresh_searched [OF ok]
    unfolding recomputes_filtered recomputes_clustered recomputes_searched by blast
  have v: "view_gen (filtered_view (snd (read_filtered E gr))) \<noteq> view_gen (filtered_view gr) \<longrightarrow>
            recomputes (read_clustered E) clustered_view gr"
    using filtered_change_not_fresh_clustered [OF ok]
    by (auto simp add: recomputes_clustered)
  have f: "computations (filtered_view gr) \<le>
           Suc (sig_gen (input_happiness_range gr) + sig_gen (input_gdp_range gr))"
    using view_ok_bound(1) [OF graph_ok_filtered [OF ok]] by (simp add: filtered_stamps_def)
  have c: "computations (clustered_view gr) \<le>
           Suc (view_gen (filtered_view gr) + sig_gen (input_cluster_features gr) +
                sig_gen (input_n_clusters gr))"
    using view_ok_bound(1) [OF graph_ok_clustered [OF ok]] by (simp add: clustered_stamps_def)
  have g: "view_gen (filtered_view gr) \<le> computations (filtered_view gr)"
    using view_ok_bound(2) [OF graph_ok_filtered [OF ok]] .
  have s: "computations (searched_view gr) \<le> Suc (sig_gen (input_country_search gr))"
    using view_ok_bound(1) [OF graph_ok_searched [OF ok]] by (simp add: searched_stamps_def)
  from m r i v f c g s show ?thesis
    by simp
qed

lemmas run_simps = run_def read_filtered_def read_searched_def read_view_def recompute_def
  set_signal_def init_graph_def new_signal_def new_view_def store_def

theorem views_are_memoized_witness:
  "changes (Set_happiness_range (3, 8)) (run toy_env one_change init_graph) \<and>
   feeds_filtered (Set_happiness_range (3, 8)) \<and>
   fresh_filtered (run toy_env one_change init_graph) \<and>
   recomputes (read_filtered toy_env) filtered_view
     (step toy_env (Set_happiness_range (3, 8)) (run toy_env one_change init_graph)) \<and>
   fst (read_filtered toy_env (run toy_env one_change init_graph)) = Inr [finland, lebanon] \<and>
   computations (filtered_view (run toy_env one_change init_graph)) = 2 \<and>
   sig_gen (input_happiness_range (run toy_env one_change init_graph)) = 1 \<and>
   changes (Set_n_clusters 3) (run toy_env one_change init_graph) \<and>
   feeds_clustered (Set_n_clusters 3) \<and>
   recomputes (read_clustered toy_env) clustered_view
     (step toy_env (Set_n_clusters 3) (run toy_env one_change init_graph)) \<and>
   changes (Set_country_search ''fin'') (run toy_env one_change init_graph) \<and>
   feeds_searched (Set_country_search ''fin'') \<and>
   recomputes (read_searched toy_env) searched_view
     (step toy_env (Set_country_search ''fin'') (run toy_env one_change init_graph)) \<and>
   view_gen (filtered_view (snd (read_filtered toy_env (run toy_env changed_back init_graph)))) \<noteq>
     view_gen (filtered_view (run toy_env changed_back init_graph)) \<and>
   recomputes (read_clustered toy_env) clustered_view (run toy_env changed_back init_graph)"
proof -
  note T = views_are_memoized [OF refl, of toy_env one_change]
  note T' = views_are_memoized [OF refl, of toy_env changed_back]
  have ch: "changes (Set_happiness_range (3, 8)) (run toy_env one_change init_graph)"
    "changes (Set_n_clusters 3) (run toy_env one_change init_graph)"
    "changes (Set_country_search ''fin'') (run toy_env one_change init_graph)"
    by (simp_all add: one_change_def run_simps)
  have ff: "feeds_filtered (Set_happiness_range (3, 8))" "feeds_clustered (Set_n_clusters 3)"
    "feeds_searched (Set_country_search ''fin'')"
    by simp_all
  from T ch ff have nf: "recomputes (read_filtered toy_env) filtered_view
     (step toy_env (Set_happiness_range (3, 8)) (run toy_env one_change init_graph))"
    "recomputes (read_clustered toy_env) clustered_view
     (step toy_env (Set_n_clusters 3) (run toy_env one_change init_graph))"
    "recomputes (read_searched toy_env) searched_view
     (step toy_env (Set_country_search ''fin'') (run toy_env one_change init_graph))"
    by blast+
  have fr: "fresh_filtered (run toy_env one_change init_graph)"
    by (simp add: one_change_def run_simps fresh_filtered_def fresh_def filtered_stamps_def)
  have "filtered_now toy_env (run toy_env one_change init_graph) = Inr [finland, lebanon]"
    by (simp add: one_change_def run_simps filtered_now_def toy_env_def filtered_data_def
        ge_cell_def le_cell_def finland_def lebanon_def luxembourg_def)
  with T have rd: "fst (read_filtered toy_env (run toy_env one_change init_graph)) =
      Inr [finland, lebanon]"
    by simp
  have n: "computations (filtered_view (run toy_env one_change init_graph)) = 2"
    "sig_gen (input_happiness_range (run toy_env one_change init_graph)) = 1"
    by (simp_all add: one_change_def run_simps)
  have v: "view_gen (filtered_view (snd (read_filtered toy_env (run toy_env changed_back init_graph)))) \<noteq>
     view_gen (filtered_view (run toy_env changed_back init_graph))"
    by (simp add: changed_back_def one_change_def run_simps toy_env_def filtered_data_def
        ge_cell_def le_cell_def finland_def lebanon_def luxembourg_def)
  with T' have r': "recomputes (read_clustered toy_env) clustered_view
      (run toy_env changed_back init_graph)"
    by blast
  from ch ff nf fr rd n v r' show ?thesis
    by simp
qed

text \<open>
  C1, as the claim states it, fails: the cache slot holds one result. When the happiness
  range goes from (3, 8) to (0, 10) and back, with a read after each step, the filtered
  view is computed three times, for two distinct combinations of its upstream values.
\<close>

theorem recurring_inputs_are_recomputed:
  "computations (filtered_view (run toy_env there_and_back init_graph)) = 3 \<and>
   length (remdups (filtered_inputs_read toy_env there_and_back init_graph)) = 2"
  by (simp add: there_and_back_def run_simps)

end
